theory Spec2Isabelle
  imports Main "HOL-Library.Sublist"
begin

section \<open>Python values used by the project model\<close>

text \<open>
  The functions of \<^verbatim>\<open>metasip/Project.py\<close> work on Python strings and lists and
  may raise.  A raise is a value of \<open>error\<close> on the left of a sum.
\<close>

datatype error = TypeError | ValueError | IndexError | IOError | Unmodelled

definition bindE :: "error + 'a \<Rightarrow> ('a \<Rightarrow> error + 'b) \<Rightarrow> error + 'b" where
  "bindE m f = (case m of Inl e \<Rightarrow> Inl e | Inr x \<Rightarrow> f x)"

fun mapE :: "('a \<Rightarrow> error + 'b) \<Rightarrow> 'a list \<Rightarrow> error + 'b list" where
  "mapE f [] = Inr []"
| "mapE f (x # xs) = bindE (f x) (\<lambda>y. bindE (mapE f xs) (\<lambda>ys. Inr (y # ys)))"

text \<open>\<^verbatim>\<open>str.isspace\<close> for the code points below 256.\<close>

definition isspace :: "char \<Rightarrow> bool" where
  "isspace c \<longleftrightarrow> c \<in> set [CHR 0x09, CHR 0x0A, CHR 0x0B, CHR 0x0C, CHR 0x0D,
     CHR 0x1C, CHR 0x1D, CHR 0x1E, CHR 0x1F, CHR 0x20, CHR 0x85, CHR 0xA0]"

text \<open>\<^verbatim>\<open>s.split()\<close>: the maximal runs of non-whitespace characters, in order.\<close>

fun split_aux :: "string \<Rightarrow> string \<Rightarrow> string list" where
  "split_aux cur [] = (if cur = [] then [] else [cur])"
| "split_aux cur (c # cs) =
     (if isspace c then (if cur = [] then split_aux [] cs else cur # split_aux [] cs)
      else split_aux (cur @ [c]) cs)"

definition py_split :: "string \<Rightarrow> string list" where
  "py_split s = split_aux [] s"

text \<open>\<^verbatim>\<open>sep.join(xs)\<close>.\<close>

fun py_join :: "string \<Rightarrow> string list \<Rightarrow> string" where
  "py_join sep [] = []"
| "py_join sep [x] = x"
| "py_join sep (x # y # ys) = x @ sep @ py_join sep (y # ys)"

text \<open>\<^verbatim>\<open>s.startswith(p)\<close> and \<^verbatim>\<open>p in s\<close>.\<close>

fun startswith :: "string \<Rightarrow> string \<Rightarrow> bool" where
  "startswith s [] = True"
| "startswith [] (p # ps) = False"
| "startswith (c # cs) (p # ps) = (c = p \<and> startswith cs ps)"

fun contains :: "string \<Rightarrow> string \<Rightarrow> bool" where
  "contains [] p = (p = [])"
| "contains (c # cs) p = (startswith (c # cs) p \<or> contains cs p)"

text \<open>
  \<^verbatim>\<open>s.replace(old, new)\<close> for a non-empty \<open>old\<close>: the occurrences are replaced
  from the left and do not overlap.
\<close>

function py_replace :: "string \<Rightarrow> string \<Rightarrow> string \<Rightarrow> string" where
  "py_replace old new [] = []"
| "py_replace old new (c # cs) =
     (if old \<noteq> [] \<and> startswith (c # cs) old
      then new @ py_replace old new (drop (length old) (c # cs))
      else c # py_replace old new cs)"
  by pat_completeness auto
termination
  by (relation "measure (\<lambda>(old, new, s). length s)") (auto simp: neq_Nil_conv)

text \<open>
  \<^verbatim>\<open>fmt % arg\<close> for a string \<open>arg\<close> (one argument, not a tuple and not a
  mapping).  The flag \<open>used\<close> records that the argument has been consumed.  The
  directives \<^verbatim>\<open>%%\<close> and \<^verbatim>\<open>%s\<close> are computed; a mapping key, a \<^verbatim>\<open>*\<close> width, a
  numeric conversion, a second conversion and an argument left over raise TypeError; an
  unknown conversion character and a format that ends after \<^verbatim>\<open>%\<close> raise ValueError.
  Flags, a width, a precision, a length modifier and the conversions \<^verbatim>\<open>%r\<close>, \<^verbatim>\<open>%a\<close>
  and \<^verbatim>\<open>%c\<close> are outside the model: they give \<open>Unmodelled\<close> rather than a result.
\<close>

fun py_format_aux :: "bool \<Rightarrow> string \<Rightarrow> string \<Rightarrow> error + string" where
  "py_format_aux used arg [] = (if used then Inr [] else Inl TypeError)"
| "py_format_aux used arg [c] =
     (if c = CHR ''%'' then Inl ValueError
      else bindE (py_format_aux used arg []) (\<lambda>r. Inr (c # r)))"
| "py_format_aux used arg (c # d # cs) =
     (if c \<noteq> CHR ''%'' then bindE (py_format_aux used arg (d # cs)) (\<lambda>r. Inr (c # r))
      else if d = CHR ''%'' then bindE (py_format_aux used arg cs) (\<lambda>r. Inr (CHR ''%'' # r))
      else if d = CHR ''('' \<or> d = CHR ''*'' then Inl TypeError
      else if d \<in> set ''-+ #0123456789.hlL'' then Inl Unmodelled
      else if used then Inl TypeError
      else if d = CHR ''s'' then bindE (py_format_aux True arg cs) (\<lambda>r. Inr (arg @ r))
      else if d \<in> set ''rac'' then Inl Unmodelled
      else if d \<in> set ''diouxXeEfFgG'' then Inl TypeError
      else Inl ValueError)"

definition py_format :: "string \<Rightarrow> string \<Rightarrow> error + string" where
  "py_format fmt arg = py_format_aux False arg fmt"

text \<open>\<^verbatim>\<open>str(n)\<close> for a non-negative integer.\<close>

definition digit_char :: "nat \<Rightarrow> char" where
  "digit_char n = ''0123456789'' ! (n mod 10)"

function py_str :: "nat \<Rightarrow> string" where
  "py_str n = (if n < 10 then [digit_char n] else py_str (n div 10) @ [digit_char n])"
  by pat_completeness auto
termination
  by (relation "measure id") auto

declare py_str.simps [simp del]

text \<open>
  \<^verbatim>\<open>int(s)\<close> for a string of code points below 256.  The whitespace that
  \<^verbatim>\<open>int\<close> drops around the number is not that of \<^verbatim>\<open>str.isspace\<close>: the separators
  \<open>0x1C\<close> to \<open>0x1F\<close> are not dropped.  One sign is allowed, the digits may be
  separated by single underscores, and there are at most 4300 digits (the limit of the
  interpreter as it is delivered); anything else raises ValueError.
\<close>

definition isdigit :: "char \<Rightarrow> bool" where
  "isdigit c \<longleftrightarrow> c \<in> set ''0123456789''"

definition digit_val :: "char \<Rightarrow> nat" where
  "digit_val c = of_char c - 48"

definition int_space :: "char \<Rightarrow> bool" where
  "int_space c \<longleftrightarrow> c \<in> set [CHR 0x09, CHR 0x0A, CHR 0x0B, CHR 0x0C, CHR 0x0D, CHR 0x20,
     CHR 0x85, CHR 0xA0]"

definition int_max_str_digits :: nat where
  "int_max_str_digits = 4300"

fun int_digits :: "nat \<Rightarrow> string \<Rightarrow> nat option" where
  "int_digits acc [] = Some acc"
| "int_digits acc (c # cs) =
     (if isdigit c then int_digits (10 * acc + digit_val c) cs
      else if c = CHR ''_'' then
        (case cs of [] \<Rightarrow> None
         | d # ds \<Rightarrow> if isdigit d then int_digits acc cs else None)
      else None)"

definition int_unsigned :: "string \<Rightarrow> nat option" where
  "int_unsigned s = (case s of [] \<Rightarrow> None
     | c # cs \<Rightarrow>
         if isdigit c \<and> length (filter isdigit s) \<le> int_max_str_digits
         then int_digits 0 s else None)"

definition int_strip :: "string \<Rightarrow> string" where
  "int_strip s = rev (dropWhile int_space (rev (dropWhile int_space s)))"

definition py_int :: "string \<Rightarrow> error + int" where
  "py_int s =
     (case int_strip s of
        [] \<Rightarrow> Inl ValueError
      | c # cs \<Rightarrow>
          if c = CHR ''-'' then
            (case int_unsigned cs of None \<Rightarrow> Inl ValueError | Some n \<Rightarrow> Inr (- int n))
          else if c = CHR ''+'' then
            (case int_unsigned cs of None \<Rightarrow> Inl ValueError | Some n \<Rightarrow> Inr (int n))
          else
            (case int_unsigned (c # cs) of None \<Rightarrow> Inl ValueError | Some n \<Rightarrow> Inr (int n)))"

text \<open>
  \<^verbatim>\<open>xs[i]\<close> on a list: the positions \<open>0\<close> to \<open>len - 1\<close> read from the front, the
  positions \<open>-len\<close> to \<open>-1\<close> read from the back, and every other position raises
  IndexError.
\<close>

definition py_index :: "'a list \<Rightarrow> int \<Rightarrow> error + 'a" where
  "py_index xs i =
     (if 0 \<le> i \<and> i < int (length xs) then Inr (xs ! nat i)
      else if i < 0 \<and> - int (length xs) \<le> i then Inr (xs ! nat (int (length xs) + i))
      else Inl IndexError)"

section \<open>The project elements\<close>

text \<open>
  \<^verbatim>\<open>Argument\<close>: its status and generations are always empty and are left out.
\<close>

record argument =
  arg_type :: string
  arg_name :: string
  arg_unnamed :: bool
  arg_default :: string
  arg_pytype :: string
  arg_annos :: string

record enumvalue =
  ev_name :: string
  ev_annos :: string
  ev_status :: string
  ev_sgen :: string
  ev_egen :: string

text \<open>
  The subclasses of \<^verbatim>\<open>Code\<close> that a header file or a class contains, each with the
  attributes its constructor stores.  The literal code blocks are kept for
  \<^verbatim>\<open>ManualCode\<close> only: no function modelled here reads the others.
\<close>

datatype decl =
    Class (name: string) (bases: string) (struct: bool) (access: string) (pybases: string)
  | Function (name: string) (rtype: string) (pytype: string) (pyargs: string)
      (args: "argument list")
  | Constructor (name: string) (access: string) (explicit: bool) (pyargs: string)
      (args: "argument list")
  | Destructor (name: string) (access: string) (virtual: bool)
  | OperatorCast (name: string) (access: string) (const: bool) (args: "argument list")
  | Method (name: string) (access: string) (rtype: string) (virtual: bool) (const: bool)
      (static: bool) (abstract: bool) (pytype: string) (pyargs: string)
      (args: "argument list")
  | OperatorMethod (name: string) (access: string) (rtype: string) (virtual: bool)
      (const: bool) (abstract: bool) (pytype: string) (pyargs: string)
      (args: "argument list")
  | OperatorFunction (name: string) (rtype: string) (pytype: string) (pyargs: string)
      (args: "argument list")
  | Enum (name: string) (access: string) (enumvalues: "enumvalue list")
  | Variable (name: string) (vtype: string) (static: bool) (access: string)
  | Typedef (name: string) (vtype: string)
  | Namespace (name: string)
  | OpaqueClass (name: string) (access: string)
  | ManualCode (precis: string) (access: string) (body: string) (docstring: string)
      (methcode: string)

text \<open>
  An element of parsed code: the attributes of \<^verbatim>\<open>Code\<close> and \<^verbatim>\<open>ProjectElement\<close>,
  the attributes of its own class, and its children (\<^verbatim>\<open>content\<close>, which only a
  \<^verbatim>\<open>Class\<close> and a \<^verbatim>\<open>Namespace\<close> have; it is \<open>[]\<close> for the others).
\<close>

datatype code =
  Code (platforms: string) (features: string) (annos: string) (status: string)
    (sgen: string) (egen: string) (decl: decl) (content: "code list")

fun set_egen :: "string \<Rightarrow> code \<Rightarrow> code" where
  "set_egen v (Code p f a st sg eg d cs) = Code p f a st sg v d cs"

fun set_sgen :: "string \<Rightarrow> code \<Rightarrow> code" where
  "set_sgen v (Code p f a st sg eg d cs) = Code p f a st v eg d cs"

fun set_content :: "code list \<Rightarrow> code \<Rightarrow> code" where
  "set_content v (Code p f a st sg eg d cs) = Code p f a st sg eg d v"

text \<open>The concrete class of an element, compared by \<^verbatim>\<open>type(dsi) is type(ssi)\<close>.\<close>

datatype kind = KClass | KFunction | KConstructor | KDestructor | KOperatorCast | KMethod
  | KOperatorMethod | KOperatorFunction | KEnum | KVariable | KTypedef | KNamespace
  | KOpaqueClass | KManualCode

fun kind_of :: "decl \<Rightarrow> kind" where
  "kind_of (Class n b s a pb) = KClass"
| "kind_of (Function n r pt pa as) = KFunction"
| "kind_of (Constructor n a e pa as) = KConstructor"
| "kind_of (Destructor n a v) = KDestructor"
| "kind_of (OperatorCast n a c as) = KOperatorCast"
| "kind_of (Method n a r v c s ab pt pa as) = KMethod"
| "kind_of (OperatorMethod n a r v c ab pt pa as) = KOperatorMethod"
| "kind_of (OperatorFunction n r pt pa as) = KOperatorFunction"
| "kind_of (Enum n a vs) = KEnum"
| "kind_of (Variable n t s a) = KVariable"
| "kind_of (Typedef n t) = KTypedef"
| "kind_of (Namespace n) = KNamespace"
| "kind_of (OpaqueClass n a) = KOpaqueClass"
| "kind_of (ManualCode p a b d m) = KManualCode"

definition isCurrent :: "code \<Rightarrow> bool" where
  "isCurrent c \<longleftrightarrow> egen c = []"

definition isManualCode :: "code \<Rightarrow> bool" where
  "isManualCode c \<longleftrightarrow> kind_of (decl c) = KManualCode"

definition sipAnnos :: "string \<Rightarrow> string" where
  "sipAnnos an = (if an \<noteq> [] then '' /'' @ an @ ''/'' else [])"

section \<open>Signatures\<close>

text \<open>\<^verbatim>\<open>Access.sigAccess\<close>: the first word of the access, without the Qt part.\<close>

definition sigAccess :: "string \<Rightarrow> string" where
  "sigAccess acc =
     (let s = (case py_split acc of [] \<Rightarrow> [] | w # ws \<Rightarrow> w)
      in if s = ''signals'' then ''protected'' else if s = ''public'' then [] else s)"

text \<open>The access begins with the word \<open>w\<close>.\<close>

definition first_word :: "string \<Rightarrow> string \<Rightarrow> bool" where
  "first_word acc w = (case py_split acc of [] \<Rightarrow> False | x # xs \<Rightarrow> x = w)"

text \<open>
  \<^verbatim>\<open>_expandType(typ, name)\<close> with \<^verbatim>\<open>ignore_namespaces\<close> left at its default
  \<^verbatim>\<open>False\<close>, as every signature calls it.
\<close>

definition expandType :: "string \<Rightarrow> string \<Rightarrow> error + string" where
  "expandType typ nm =
     (if typ = [] then Inr []
      else
        let typ' = py_replace ''long int'' ''long'' typ
        in if contains typ' ''%s'' then py_format typ' nm
           else Inr (if nm \<noteq> []
                     then (if last typ' \<notin> set ''&*'' then typ' @ '' '' else typ') @ nm
                     else typ'))"

definition Argument_signature :: "argument \<Rightarrow> error + string" where
  "Argument_signature a =
     bindE (expandType (arg_type a) [])
       (\<lambda>s. Inr (if arg_default a \<noteq> [] then s @ '' = '' @ arg_default a else s))"

text \<open>
  \<open>py_format\<close> covers the formats made of \<^verbatim>\<open>%s\<close> and \<^verbatim>\<open>%%\<close>.  So that a property
  can be stated for every format, \<open>expandType_with\<close> and \<open>Argument_signature_with\<close>
  are \<^verbatim>\<open>_expandType\<close> and \<^verbatim>\<open>Argument.signature\<close> once more, with the operator
  \<^verbatim>\<open>%\<close> as the parameter \<open>fmt\<close>.
\<close>

definition expandType_with ::
  "(string \<Rightarrow> string \<Rightarrow> error + string) \<Rightarrow> string \<Rightarrow> string \<Rightarrow> error + string" where
  "expandType_with fmt typ nm =
     (if typ = [] then Inr []
      else
        let typ' = py_replace ''long int'' ''long'' typ
        in if contains typ' ''%s'' then fmt typ' nm
           else Inr (if nm \<noteq> []
                     then (if last typ' \<notin> set ''&*'' then typ' @ '' '' else typ') @ nm
                     else typ'))"

definition Argument_signature_with ::
  "(string \<Rightarrow> string \<Rightarrow> error + string) \<Rightarrow> argument \<Rightarrow> error + string" where
  "Argument_signature_with fmt a =
     bindE (expandType_with fmt (arg_type a) [])
       (\<lambda>s. Inr (if arg_default a \<noteq> [] then s @ '' = '' @ arg_default a else s))"

text \<open>
  The text that \<^verbatim>\<open>Callable.signature\<close> builds and that \<^verbatim>\<open>Method\<close>,
  \<^verbatim>\<open>OperatorMethod\<close> and \<^verbatim>\<open>OperatorFunction\<close> build again with their own prefix
  \<open>pre\<close> before the name.
\<close>

definition callable_sig :: "string \<Rightarrow> string \<Rightarrow> string \<Rightarrow> argument list \<Rightarrow> error + string" where
  "callable_sig rt pre nm as =
     bindE (expandType rt [])
       (\<lambda>r. bindE (mapE Argument_signature as)
          (\<lambda>ss. Inr (r @ pre @ nm @ ''('' @ py_join '', '' ss @ '')'')))"

text \<open>
  \<^verbatim>\<open>signature()\<close> of each class.  \<^verbatim>\<open>Enum\<close>, \<^verbatim>\<open>Variable\<close>, \<^verbatim>\<open>Typedef\<close>,
  \<^verbatim>\<open>Namespace\<close>, \<^verbatim>\<open>OpaqueClass\<close> and \<^verbatim>\<open>ManualCode\<close> inherit \<^verbatim>\<open>Code.signature\<close>,
  which returns \<^verbatim>\<open>user()\<close>.
\<close>

fun signature :: "code \<Rightarrow> error + string" where
  "signature (Code p f an st sg eg (Class n b s a pb) cs) =
     Inr ((if s then ''struct'' else ''class'')
          @ (if n \<noteq> [] then '' '' @ n else [])
          @ (if b \<noteq> [] then '' : '' @ b else [])
          @ sigAccess a)"
| "signature (Code p f an st sg eg (Function n r pt pa as) cs) = callable_sig r [] n as"
| "signature (Code p f an st sg eg (Constructor n a e pa as) cs) =
     bindE (callable_sig [] [] n as)
       (\<lambda>s. Inr ((if e then ''explicit '' else []) @ s @ sigAccess a))"
| "signature (Code p f an st sg eg (Destructor n a v) cs) =
     Inr ((if v then ''virtual '' else []) @ n @ sigAccess a)"
| "signature (Code p f an st sg eg (OperatorCast n a c as) cs) =
     bindE (callable_sig [] [] n as)
       (\<lambda>s. Inr (''operator '' @ s @ sigAccess a @ (if c then '' const'' else [])))"
| "signature (Code p f an st sg eg (Method n a r v c s ab pt pa as) cs) =
     bindE (callable_sig r [] n as)
       (\<lambda>t. Inr ((if v then ''virtual '' else []) @ (if s then ''static '' else []) @ t
                 @ (if c then '' const'' else []) @ (if ab then '' = 0'' else [])
                 @ sigAccess a))"
| "signature (Code p f an st sg eg (OperatorMethod n a r v c ab pt pa as) cs) =
     bindE (callable_sig r ''operator'' n as)
       (\<lambda>t. Inr ((if v then ''virtual '' else []) @ t
                 @ (if c then '' const'' else []) @ (if ab then '' = 0'' else [])
                 @ sigAccess a))"
| "signature (Code p f an st sg eg (OperatorFunction n r pt pa as) cs) =
     callable_sig r ''operator'' n as"
| "signature (Code p f an st sg eg (Enum n a vs) cs) =
     Inr (''enum'' @ (if n \<noteq> [] then '' '' @ n else []) @ sigAccess a)"
| "signature (Code p f an st sg eg (Variable n t s a) cs) =
     bindE (expandType t n)
       (\<lambda>u. Inr ((if s then ''static '' else []) @ u @ sipAnnos an @ sigAccess a))"
| "signature (Code p f an st sg eg (Typedef n t) cs) =
     bindE (expandType t n) (\<lambda>u. Inr (''typedef '' @ u @ sipAnnos an))"
| "signature (Code p f an st sg eg (Namespace n) cs) = Inr (''namespace '' @ n)"
| "signature (Code p f an st sg eg (OpaqueClass n a) cs) =
     Inr (''class '' @ n @ sipAnnos an @ sigAccess a)"
| "signature (Code p f an st sg eg (ManualCode pr a b d m) cs) = Inr (pr @ sigAccess a)"


section \<open>The merge of parsed code\<close>

text \<open>
  The test of \<^verbatim>\<open>_mergeCode\<close>:
  \<^verbatim>\<open>type(dsi) is type(ssi) and dsi.signature() == ssi.signature()\<close>.
  The signatures are computed only when the classes are the same.
\<close>

definition matches :: "code \<Rightarrow> code \<Rightarrow> error + bool" where
  "matches dsi ssi =
     (if kind_of (decl dsi) = kind_of (decl ssi)
      then bindE (signature dsi) (\<lambda>a. bindE (signature ssi) (\<lambda>b. Inr (a = b)))
      else Inr False)"

text \<open>
  The inner loop of \<^verbatim>\<open>_mergeCode\<close> with the \<^verbatim>\<open>ssc.remove(ssi)\<close> that follows it:
  the first parsed item that matches, and the parsed items without it; \<open>None\<close> when the
  loop ends without a \<^verbatim>\<open>break\<close>.
\<close>

fun find_match :: "code \<Rightarrow> code list \<Rightarrow> error + (code \<times> code list) option" where
  "find_match dsi [] = Inr None"
| "find_match dsi (ssi # ssc) =
     bindE (matches dsi ssi)
       (\<lambda>b. if b then Inr (Some (ssi, ssc))
            else bindE (find_match dsi ssc)
                   (\<lambda>r. Inr (map_option (\<lambda>(m, rest). (m, ssi # rest)) r)))"

definition isContainer :: "code \<Rightarrow> bool" where
  "isContainer c \<longleftrightarrow> kind_of (decl c) = KClass \<or> kind_of (decl c) = KNamespace"

text \<open>
  \<^verbatim>\<open>HeaderDirectory._mergeCode(dsc, ssc)\<close>.  \<open>mergeItems\<close> is the loop over
  \<^verbatim>\<open>dsc.content\<close>: it returns the children as the loop leaves them and the parsed
  items that no child consumed.  \<open>mergeCode\<close> is the whole method, from the children of
  \<open>dsc\<close> to its children afterwards; \<open>gen\<close> is \<^verbatim>\<open>project.generation\<close>.
\<close>

function mergeItems :: "nat \<Rightarrow> code list \<Rightarrow> code list \<Rightarrow> error + (code list \<times> code list)"
  and mergeCode :: "nat \<Rightarrow> code list \<Rightarrow> code list \<Rightarrow> error + code list" where
  "mergeItems gen [] ssc = Inr ([], ssc)"
| "mergeItems gen (dsi # ds) ssc =
     (if \<not> isCurrent dsi then
        bindE (mergeItems gen ds ssc) (\<lambda>(ds', rest). Inr (dsi # ds', rest))
      else if isManualCode dsi then
        bindE (mergeItems gen ds ssc) (\<lambda>(ds', rest). Inr (dsi # ds', rest))
      else
        bindE (find_match dsi ssc)
          (\<lambda>found. case found of
             None \<Rightarrow>
               bindE (mergeItems gen ds ssc)
                 (\<lambda>(ds', rest). Inr (set_egen (py_str gen) dsi # ds', rest))
           | Some (ssi, ssc') \<Rightarrow>
               if isContainer dsi then
                 bindE (mergeCode gen (content dsi) (content ssi))
                   (\<lambda>cs. bindE (mergeItems gen ds ssc')
                      (\<lambda>(ds', rest). Inr (set_content cs dsi # ds', rest)))
               else
                 bindE (mergeItems gen ds ssc') (\<lambda>(ds', rest). Inr (dsi # ds', rest))))"
| "mergeCode gen dsc ssc =
     bindE (mergeItems gen dsc ssc)
       (\<lambda>(ds', rest). Inr (ds' @ map (set_sgen (py_str gen)) rest))"
  by pat_completeness auto


termination
  apply (relation "measure (\<lambda>x. case x of
         Inl (gen, ds, ssc) \<Rightarrow> 2 * size_list size ds
       | Inr (gen, dsc, ssc) \<Rightarrow> 2 * size_list size dsc + 1)")
      apply simp_all
  subgoal for dsi ds by (cases dsi) simp
  done

declare mergeCode.simps [simp del]

text \<open>
  The children that \<^verbatim>\<open>_mergeCode\<close> compares with the parsed items: those that pass
  both \<^verbatim>\<open>continue\<close> tests.
\<close>

definition active :: "code \<Rightarrow> bool" where
  "active d \<longleftrightarrow> isCurrent d \<and> \<not> isManualCode d"

text \<open>
  The number of children that consumed a parsed item: they were compared and are still
  current afterwards.
\<close>

definition consumers :: "code list \<Rightarrow> code list \<Rightarrow> nat" where
  "consumers ds ds' = length (filter (\<lambda>(d, d'). active d \<and> isCurrent d') (zip ds ds'))"

text \<open>
  The element reached from a list of children by a path of positions, each step going
  into the \<^verbatim>\<open>content\<close> of the element at that position.
\<close>

fun at_path :: "code list \<Rightarrow> nat list \<Rightarrow> code option" where
  "at_path cs [] = None"
| "at_path cs [i] = (if i < length cs then Some (cs ! i) else None)"
| "at_path cs (i # j # p) =
     (if i < length cs then at_path (content (cs ! i)) (j # p) else None)"

text \<open>
  A sequence of merge passes over the same container, each with its own generation and
  its own parsed items.
\<close>

fun mergePasses :: "code list \<Rightarrow> (nat \<times> code list) list \<Rightarrow> error + code list" where
  "mergePasses ds [] = Inr ds"
| "mergePasses ds ((gen, ssc) # ps) = bindE (mergeCode gen ds ssc) (\<lambda>ds'. mergePasses ds' ps)"

text \<open>
  An unchanged parse, in the words of the specification: every current child that is not
  manual code has a parsed counterpart of the same class and signature, there is no
  parsed item without such a child, the class and signature identify an item on both
  sides, and the same holds inside each class and namespace and its counterpart.
\<close>

definition sig_ok :: "code \<Rightarrow> bool" where
  "sig_ok c = (case signature c of Inr s \<Rightarrow> True | Inl e \<Rightarrow> False)"

text \<open>No signature raises, in an element and in everything below it.\<close>

fun all_sig_ok :: "code \<Rightarrow> bool" where
  "all_sig_ok (Code p f an st sg eg d cs) \<longleftrightarrow>
     sig_ok (Code p f an st sg eg d cs) \<and> (\<forall>c\<in>set cs. all_sig_ok c)"

definition key :: "code \<Rightarrow> kind \<times> (error + string)" where
  "key c = (kind_of (decl c), signature c)"

function same_declarations :: "code list \<Rightarrow> code list \<Rightarrow> bool" where
  "same_declarations ds ssc \<longleftrightarrow>
     (\<forall>s\<in>set ssc. sig_ok s) \<and>
     (\<forall>d\<in>set ds. active d \<longrightarrow> sig_ok d) \<and>
     distinct (map key ssc) \<and>
     distinct (map key (filter active ds)) \<and>
     (\<forall>d\<in>set ds. active d \<longrightarrow> (\<exists>s\<in>set ssc. key s = key d)) \<and>
     (\<forall>s\<in>set ssc. \<exists>d\<in>set ds. active d \<and> key s = key d) \<and>
     (\<forall>d\<in>set ds. \<forall>s\<in>set ssc.
        active d \<and> isContainer d \<and> key s = key d
          \<longrightarrow> same_declarations (content d) (content s))"
  by pat_completeness auto
termination
  apply (relation "measure (\<lambda>(ds, ssc). size_list size ds)")
   apply simp_all
  subgoal for ds ssc d s
    by (cases d) (auto simp: less_Suc_eq_le dest: size_list_estimation' [where f = size])
  done

declare same_declarations.simps [simp del]

section \<open>The project\<close>

text \<open>
  The attributes of \<^verbatim>\<open>Project\<close> that the functions below read or write.
  \<open>p_dirty\<close> is the flag behind \<^verbatim>\<open>IDirty(project).dirty\<close>.
\<close>

record project =
  p_versions :: "string list"
  p_generation :: nat
  p_dirty :: bool
  p_rootmodule :: string
  p_platforms :: string
  p_features :: string
  p_externalmodules :: string
  p_sipcomments :: string
  p_outputdir :: string
  p_diagnostic :: string

text \<open>
  \<^verbatim>\<open>HeaderFile\<close>.  Its constructor passes \<^verbatim>\<open>None\<close> for the platforms, the
  features and the annotations, which are left out.
\<close>

record headerfile =
  hf_name :: string
  hf_md5 :: string
  hf_parse :: string
  hf_status :: string
  hf_sgen :: string
  hf_egen :: string
  hf_exportedheadercode :: string
  hf_moduleheadercode :: string
  hf_modulecode :: string
  hf_preinitcode :: string
  hf_initcode :: string
  hf_postinitcode :: string
  hf_content :: "code list"

text \<open>
  \<^verbatim>\<open>HeaderDirectory.addParsedHeaderFile(hf, phf)\<close>: the merge, then the project is
  marked dirty whatever the merge did.
\<close>

definition addParsedHeaderFile ::
  "project \<Rightarrow> headerfile \<Rightarrow> code list \<Rightarrow> error + (headerfile \<times> project)" where
  "addParsedHeaderFile prj hf phf =
     bindE (mergeCode (p_generation prj) (hf_content hf) phf)
       (\<lambda>cs. Inr (hf\<lparr>hf_content := cs\<rparr>, prj\<lparr>p_dirty := True\<rparr>))"

text \<open>
  \<^verbatim>\<open>Project.versionRange(sgen, egen)\<close>.  \<open>version_at\<close> is
  \<^verbatim>\<open>self.versions[int(g) - 1]\<close>.
\<close>

definition version_at :: "project \<Rightarrow> string \<Rightarrow> error + string" where
  "version_at prj g = bindE (py_int g) (\<lambda>n. py_index (p_versions prj) (n - 1))"

definition versionRange :: "project \<Rightarrow> string \<Rightarrow> string \<Rightarrow> error + string" where
  "versionRange prj sg eg =
     (if sg = [] then
        (if eg = [] then Inr []
         else bindE (version_at prj eg) (\<lambda>e. Inr (''- '' @ e)))
      else if eg = [] then bindE (version_at prj sg) (\<lambda>s. Inr (s @ '' -''))
      else bindE (version_at prj sg)
             (\<lambda>s. bindE (version_at prj eg) (\<lambda>e. Inr (s @ '' - '' @ e))))"

section \<open>Writing SIP files\<close>

text \<open>
  \<^verbatim>\<open>_IndentFile\<close>.  \<open>f_text\<close> is what has been written to the underlying file so
  far; the other fields are the attributes of the class.
\<close>

record indentfile =
  f_name :: string
  f_text :: string
  f_indent :: int
  f_nrindents :: int
  f_indentnext :: bool
  f_blank :: bool
  f_suppressblank :: bool

definition nl :: string where
  "nl = [CHR 0x0A]"

definition IndentFile_init :: "string \<Rightarrow> int \<Rightarrow> indentfile" where
  "IndentFile_init fname indent =
     \<lparr>f_name = fname, f_text = [], f_indent = indent, f_nrindents = 0,
      f_indentnext = True, f_blank = False, f_suppressblank = False\<rparr>"

text \<open>\<^verbatim>\<open>data.split("\n")\<close>: the pieces between the newlines, at least one.\<close>

fun split_nl_aux :: "string \<Rightarrow> string \<Rightarrow> string list" where
  "split_nl_aux cur [] = [cur]"
| "split_nl_aux cur (c # cs) =
     (if c = CHR 0x0A then cur # split_nl_aux [] cs else split_nl_aux (cur @ [c]) cs)"

definition split_nl :: "string \<Rightarrow> string list" where
  "split_nl s = split_nl_aux [] s"

text \<open>\<^verbatim>\<open>" " * (self._indent * self._nrindents)\<close>, empty when the product is negative.\<close>

definition indentation :: "indentfile \<Rightarrow> string" where
  "indentation f = replicate (nat (f_indent f * f_nrindents f)) CHR '' ''"

text \<open>The body of the loop over \<^verbatim>\<open>lines[:-1]\<close> in \<^verbatim>\<open>_IndentFile.write\<close>.\<close>

definition write_line :: "bool \<Rightarrow> indentfile \<Rightarrow> string \<Rightarrow> indentfile" where
  "write_line ind f l =
     f\<lparr>f_text := f_text f @ (if ind \<and> f_indentnext f then indentation f else []) @ l @ nl,
       f_indentnext := True\<rparr>"

definition IndentFile_write :: "indentfile \<Rightarrow> string \<Rightarrow> bool \<Rightarrow> indentfile" where
  "IndentFile_write f data ind =
     (if data = [] then f
      else
        let f1 = (if f_blank f then f\<lparr>f_text := f_text f @ nl, f_blank := False\<rparr> else f);
            lines = split_nl data;
            f2 = foldl (write_line ind) f1 (butlast lines);
            l = last lines;
            f3 = (if l \<noteq> []
                  then f2\<lparr>f_text := f_text f2
                               @ (if ind \<and> f_indentnext f2 then indentation f2 else []) @ l,
                          f_indentnext := False\<rparr>
                  else f2\<lparr>f_indentnext := True\<rparr>)
        in f3\<lparr>f_suppressblank := False\<rparr>)"

definition IndentFile_blank :: "indentfile \<Rightarrow> indentfile" where
  "IndentFile_blank f = (if \<not> f_suppressblank f then f\<lparr>f_blank := True\<rparr> else f)"

definition IndentFile_iadd :: "indentfile \<Rightarrow> int \<Rightarrow> indentfile" where
  "IndentFile_iadd f n = f\<lparr>f_nrindents := f_nrindents f + n, f_suppressblank := True\<rparr>"

definition IndentFile_isub :: "indentfile \<Rightarrow> int \<Rightarrow> indentfile" where
  "IndentFile_isub f n =
     f\<lparr>f_nrindents := f_nrindents f - n, f_blank := False, f_suppressblank := False\<rparr>"

definition writeCodeSIP :: "indentfile \<Rightarrow> string \<Rightarrow> string \<Rightarrow> bool \<Rightarrow> indentfile" where
  "writeCodeSIP f directive src ind =
     (let f1 = IndentFile_write f (directive @ nl) False;
          f2 = IndentFile_iadd f1 1;
          f3 = IndentFile_write f2 (src @ nl) ind;
          f4 = IndentFile_isub f3 1;
          f5 = IndentFile_write f4 (''%End'' @ nl) False
      in IndentFile_blank f5)"

definition writeDocstringSIP :: "indentfile \<Rightarrow> string \<Rightarrow> indentfile" where
  "writeDocstringSIP f doc =
     (if doc \<noteq> [] then writeCodeSIP f ''%Docstring'' doc False else f)"

definition writeMethCodeSIP :: "indentfile \<Rightarrow> string \<Rightarrow> indentfile" where
  "writeMethCodeSIP f src =
     (if src \<noteq> [] then writeCodeSIP f ''%MethodCode'' src True else f)"

text \<open>
  The \<^verbatim>\<open>sip\<close> method of a child, as far as it is modelled: \<^verbatim>\<open>ManualCode.sip\<close> and
  \<^verbatim>\<open>OpaqueClass.sip\<close>.  The functions below take the method of the children as a
  parameter \<open>csip\<close>, so that what is proved of them holds for every class of child;
  \<open>element_sip\<close> is the instance used in the examples.
\<close>

fun element_sip :: "code \<Rightarrow> indentfile \<Rightarrow> error + indentfile" where
  "element_sip (Code p ft an st sg eg (ManualCode pr a b d m) cs) f =
     (let f1 = (if b \<noteq> [] then IndentFile_write f (''// '' @ pr @ nl @ b @ nl) False
                else if startswith pr ''%'' then IndentFile_write f (pr @ nl) False
                else IndentFile_write f (pr @ '';'' @ nl) True);
          f2 = writeDocstringSIP f1 d
      in Inr (writeMethCodeSIP f2 m))"
| "element_sip (Code p ft an st sg eg (OpaqueClass n a) cs) f =
     Inr (IndentFile_write f (''class '' @ n @ sipAnnos an @ '';'' @ nl) True)"
| "element_sip c f = Inl Unmodelled"

text \<open>
  The statements that \<^verbatim>\<open>Code.sip\<close> and \<^verbatim>\<open>Class.sip\<close> both execute for a child
  \<open>c\<close> that is not suppressed.  \<open>open_conditions\<close> is the three \<^verbatim>\<open>if\<close>
  statements before \<^verbatim>\<open>c.sip(f, hf, latest_sip)\<close>, \<open>close_conditions\<close> the three
  after it, and \<open>sip_wrapped\<close> the whole: the version range is computed, the
  conditions are opened, the child writes itself, the conditions are closed.
\<close>

definition open_conditions :: "string \<Rightarrow> code \<Rightarrow> indentfile \<Rightarrow> indentfile" where
  "open_conditions vrange c f =
     (let f1 = (if vrange \<noteq> []
                then IndentFile_write f (''%If ('' @ vrange @ '')'' @ nl) False else f);
          f2 = (if platforms c \<noteq> []
                then IndentFile_write f1
                       (''%If ('' @ py_join '' || '' (py_split (platforms c)) @ '')'' @ nl)
                       False
                else f1)
      in if features c \<noteq> []
         then IndentFile_write f2
                (''%If ('' @ py_join '' || '' (py_split (features c)) @ '')'' @ nl) False
         else f2)"

definition close_conditions :: "string \<Rightarrow> code \<Rightarrow> indentfile \<Rightarrow> indentfile" where
  "close_conditions vrange c f =
     (let f1 = (if features c \<noteq> [] then IndentFile_write f (''%End'' @ nl) False else f);
          f2 = (if platforms c \<noteq> [] then IndentFile_write f1 (''%End'' @ nl) False else f1)
      in if vrange \<noteq> [] then IndentFile_write f2 (''%End'' @ nl) False else f2)"

definition sip_wrapped ::
  "(code \<Rightarrow> indentfile \<Rightarrow> error + indentfile) \<Rightarrow> project \<Rightarrow> code \<Rightarrow> indentfile
     \<Rightarrow> error + indentfile" where
  "sip_wrapped csip prj c f =
     bindE (versionRange prj (sgen c) (egen c))
       (\<lambda>vrange. bindE (csip c (open_conditions vrange c f))
                    (\<lambda>f'. Inr (close_conditions vrange c f')))"

text \<open>\<^verbatim>\<open>Code.sip\<close>: the loop over the children.\<close>

fun Code_sip ::
  "(code \<Rightarrow> indentfile \<Rightarrow> error + indentfile) \<Rightarrow> project \<Rightarrow> code list \<Rightarrow> indentfile
     \<Rightarrow> error + indentfile" where
  "Code_sip csip prj [] f = Inr f"
| "Code_sip csip prj (c # cs) f =
     (if status c \<noteq> [] then Code_sip csip prj cs f
      else bindE (sip_wrapped csip prj c f) (\<lambda>f'. Code_sip csip prj cs f'))"

text \<open>
  The loop over the children at the end of \<^verbatim>\<open>Class.sip\<close>.  \<open>acc\<close> is the access of
  the section being written; a child of a class derived from \<^verbatim>\<open>Access\<close> with
  another access starts a new section before its conditions are opened.
\<close>

definition has_access :: "code \<Rightarrow> bool" where
  "has_access c \<longleftrightarrow>
     kind_of (decl c) \<notin> {KFunction, KOperatorFunction, KTypedef, KNamespace}"

fun Class_sip_children ::
  "(code \<Rightarrow> indentfile \<Rightarrow> error + indentfile) \<Rightarrow> project \<Rightarrow> string \<Rightarrow> code list
     \<Rightarrow> indentfile \<Rightarrow> error + indentfile" where
  "Class_sip_children csip prj acc [] f = Inr f"
| "Class_sip_children csip prj acc (c # cs) f =
     (if status c \<noteq> [] then Class_sip_children csip prj acc cs f
      else if has_access c \<and> acc \<noteq> access (decl c) then
        (let f1 = IndentFile_isub f 1;
             f2 = IndentFile_blank f1;
             f3 = IndentFile_write f2
                    ((if access (decl c) \<noteq> [] then access (decl c) else ''public'')
                       @ '':'' @ nl) True;
             f4 = IndentFile_iadd f3 1
         in bindE (sip_wrapped csip prj c f4)
              (\<lambda>f'. Class_sip_children csip prj (access (decl c)) cs f'))
      else bindE (sip_wrapped csip prj c f)
             (\<lambda>f'. Class_sip_children csip prj acc cs f'))"

text \<open>
  The nesting of the specification: the lines that open the conditions of a child, the
  generation range first, then the platforms, then the features, and the lines that
  close them, one for each condition that was opened.
\<close>

definition opening_lines :: "string \<Rightarrow> code \<Rightarrow> string" where
  "opening_lines vrange c =
     (if vrange \<noteq> [] then ''%If ('' @ vrange @ '')'' @ nl else [])
     @ (if platforms c \<noteq> []
        then ''%If ('' @ py_join '' || '' (py_split (platforms c)) @ '')'' @ nl else [])
     @ (if features c \<noteq> []
        then ''%If ('' @ py_join '' || '' (py_split (features c)) @ '')'' @ nl else [])"

definition closing_lines :: "string \<Rightarrow> code \<Rightarrow> string" where
  "closing_lines vrange c =
     concat (replicate
       (length (filter (\<lambda>t. t \<noteq> []) [features c, platforms c, vrange])) (''%End'' @ nl))"

text \<open>
  What a run of writes without indentation adds to the file: a blank line that is
  pending, if anything is written at all, and the text.
\<close>

definition appended :: "indentfile \<Rightarrow> string \<Rightarrow> string" where
  "appended f txt = (if f_blank f \<and> txt \<noteq> [] then nl else []) @ txt"

section \<open>Generating the files of a module\<close>

record module =
  m_name :: string
  m_outputdirsuffix :: string
  m_version :: string
  m_imports :: string
  m_directives :: string
  m_content :: "headerfile list"

text \<open>
  What the functions take from the operating system: \<^verbatim>\<open>os.path.abspath\<close>, the text
  of \<^verbatim>\<open>time.asctime()\<close>, and for each path the exception that
  \<^verbatim>\<open>open(path, "w")\<close> raises there, its class and its message, or \<open>None\<close> when it
  creates the file.  The files are a map from paths to contents; directories are not
  modelled (\<^verbatim>\<open>_createSIPFile\<close> ignores every failure of \<^verbatim>\<open>os.makedirs\<close>), and
  the paths are those of \<^verbatim>\<open>posixpath\<close>.
\<close>

record env =
  env_abspath :: "string \<Rightarrow> string"
  env_asctime :: string
  env_open_error :: "string \<Rightarrow> (error \<times> string) option"

text \<open>
  \<^verbatim>\<open>open(path, "w")\<close>: a path with a NUL character raises \<^verbatim>\<open>ValueError\<close> on every
  system; for any other path the system decides.
\<close>

definition open_error :: "env \<Rightarrow> string \<Rightarrow> (error \<times> string) option" where
  "open_error ev pname =
     (if CHR 0x00 \<in> set pname then Some (ValueError, ''embedded null byte'')
      else env_open_error ev pname)"

type_synonym files = "string \<Rightarrow> string option"

definition path_join :: "string \<Rightarrow> string \<Rightarrow> string" where
  "path_join a b =
     (if startswith b ''/'' then b
      else if a = [] \<or> last a = CHR ''/'' then a @ b
      else a @ ''/'' @ b)"

definition basename :: "string \<Rightarrow> string" where
  "basename p = rev (takeWhile (\<lambda>c. c \<noteq> CHR ''/'') (rev p))"

text \<open>
  \<^verbatim>\<open>os.path.splitext\<close>: the extension starts at the last dot of the last component,
  unless only dots come before it there.
\<close>

definition splitext :: "string \<Rightarrow> string \<times> string" where
  "splitext p =
     (let b = basename p;
          ext = rev (takeWhile (\<lambda>c. c \<noteq> CHR ''.'') (rev b));
          stem = take (length b - length ext - 1) b
      in if CHR ''.'' \<in> set b \<and> (\<exists>c\<in>set stem. c \<noteq> CHR ''.'')
         then (take (length p - length ext - 1) p, CHR ''.'' # ext)
         else (p, []))"

text \<open>
  \<^verbatim>\<open>HeaderFile.sip(f, latest_sip)\<close>.  \<open>module_level\<close> is the test of its first
  loop, which stops at the first child that passes it.
\<close>

definition module_level :: "code \<Rightarrow> bool" where
  "module_level c \<longleftrightarrow>
     status c = [] \<and> kind_of (decl c) \<in> {KFunction, KOperatorFunction, KVariable, KEnum}"

definition HeaderFile_sip ::
  "(code \<Rightarrow> indentfile \<Rightarrow> error + indentfile) \<Rightarrow> project \<Rightarrow> headerfile \<Rightarrow> indentfile
     \<Rightarrow> error + indentfile" where
  "HeaderFile_sip csip prj hf f =
     (if hf_status hf \<noteq> [] then Inr f
      else
        bindE
          (if list_ex module_level (hf_content hf) then
             bindE (versionRange prj (hf_sgen hf) (hf_egen hf))
               (\<lambda>vrange.
                  let f1 = (if vrange \<noteq> []
                            then IndentFile_write f (''%If ('' @ vrange @ '')'' @ nl) False
                            else f);
                      f2 = IndentFile_write f1
                             (''%ModuleCode'' @ nl @ ''#include <'' @ hf_name hf @ ''>'' @ nl
                                @ ''%End'' @ nl) True;
                      f3 = (if vrange \<noteq> [] then IndentFile_write f2 (''%End'' @ nl) False
                            else f2)
                  in Inr (IndentFile_blank f3))
           else Inr f)
          (\<lambda>f1. bindE (Code_sip csip prj (hf_content hf) f1)
             (\<lambda>f2.
                let f3 = IndentFile_blank f2;
                    f4 = (if hf_exportedheadercode hf \<noteq> []
                          then writeCodeSIP f3 ''%ExportedHeaderCode''
                                 (hf_exportedheadercode hf) False
                          else f3);
                    f5 = (if hf_moduleheadercode hf \<noteq> []
                          then writeCodeSIP f4 ''%ModuleHeaderCode'' (hf_moduleheadercode hf) False
                          else f4);
                    f6 = (if hf_modulecode hf \<noteq> []
                          then writeCodeSIP f5 ''%ModuleCode'' (hf_modulecode hf) False
                          else f5);
                    f7 = (if hf_preinitcode hf \<noteq> []
                          then writeCodeSIP f6 ''%PreInitialisationCode'' (hf_preinitcode hf) False
                          else f6);
                    f8 = (if hf_initcode hf \<noteq> []
                          then writeCodeSIP f7 ''%InitialisationCode'' (hf_initcode hf) False
                          else f7)
                in Inr (if hf_postinitcode hf \<noteq> []
                        then writeCodeSIP f8 ''%PostInitialisationCode''
                               (hf_postinitcode hf) False
                        else f8))))"

text \<open>
  \<^verbatim>\<open>Project._createSIPFile(od, mod, hf)\<close> with \<^verbatim>\<open>_createIndentFile\<close>.
  \<open>sip_path\<close> is the name of the file; \<open>None\<close> for \<open>hf\<close> is the file of the module
  itself.  \<open>sip_boilerplate\<close> is the file after the standard header has been written
  to it.  \<^verbatim>\<open>_createIndentFile\<close> catches \<^verbatim>\<open>IOError\<close> only: then the diagnostic is
  set and no file is returned; any other exception of \<^verbatim>\<open>open\<close> is raised.
\<close>

definition sip_fname :: "module \<Rightarrow> headerfile option \<Rightarrow> string" where
  "sip_fname md hf =
     (case hf of None \<Rightarrow> m_name md @ ''mod''
      | Some h \<Rightarrow> fst (splitext (basename (hf_name h)))) @ ''.sip''"

definition sip_path :: "string \<Rightarrow> module \<Rightarrow> headerfile option \<Rightarrow> string" where
  "sip_path od md hf =
     path_join
       (if m_outputdirsuffix md \<noteq> [] then path_join od (m_outputdirsuffix md) else od)
       (sip_fname md hf)"

definition sip_boilerplate ::
  "env \<Rightarrow> project \<Rightarrow> module \<Rightarrow> headerfile option \<Rightarrow> string \<Rightarrow> indentfile" where
  "sip_boilerplate ev prj md hf pname =
     (let f0 = IndentFile_init pname 4;
          f1 = IndentFile_write f0
                 (''// '' @ sip_fname md hf @ '' generated by MetaSIP on ''
                    @ env_asctime ev @ nl @ ''//'' @ nl
                    @ ''// This file is part of the '' @ m_name md
                    @ '' Python extension module.'' @ nl) True;
          f2 = (if p_sipcomments prj \<noteq> []
                then IndentFile_write f1 (''//'' @ nl @ p_sipcomments prj @ nl) True
                else f1);
          f3 = IndentFile_write f2 nl True
      in IndentFile_blank f3)"

definition createSIPFile ::
  "env \<Rightarrow> project \<Rightarrow> string \<Rightarrow> module \<Rightarrow> headerfile option \<Rightarrow> files
     \<Rightarrow> error + indentfile option \<times> project \<times> files" where
  "createSIPFile ev prj od md hf fs =
     (let pname = sip_path od md hf
      in case open_error ev pname of
           Some (e, detail) \<Rightarrow>
             if e = IOError then
               Inr (None,
                    prj\<lparr>p_diagnostic := ''Unable to create file '' @ pname @ '': '' @ detail\<rparr>,
                    fs)
             else Inl e
         | None \<Rightarrow>
             Inr (Some (sip_boilerplate ev prj md hf pname), prj, fs(pname := Some [])))"

text \<open>
  \<^verbatim>\<open>f.close()\<close> on the file that was opened at \<open>pname\<close>: the file has the text
  that was written.  Writing to a file that has been created and closing it are taken
  to succeed, and \<^verbatim>\<open>Logger.log\<close> has no part in the result.
\<close>

definition close_file :: "string \<Rightarrow> indentfile \<Rightarrow> files \<Rightarrow> files" where
  "close_file pname f fs = fs(pname := Some (f_text f))"

text \<open>
  A run of \<^verbatim>\<open>generateModule\<close> ends by returning a value, with the project and the
  files as it leaves them, or by an exception: one that \<^verbatim>\<open>open\<close> raised and
  \<^verbatim>\<open>_createIndentFile\<close> did not catch, or one that a header file raised while it was
  written.  Beside its result the model keeps the log of the run: for each call of
  \<^verbatim>\<open>_createSIPFile\<close>, in order, whether the file was created, could not be
  (\<^verbatim>\<open>None\<close> was returned), or the call raised.
\<close>

datatype event = Created string | Failed string | Aborted string error

datatype result = Returned bool project files | Raised error

text \<open>
  The first loop of \<^verbatim>\<open>generateModule\<close>, over the header files of the module:
  on the left the result when the method ends in the loop, on the right the names
  collected in \<^verbatim>\<open>hfnames\<close> when the loop is left at its end.
\<close>

fun generate_headers ::
  "env \<Rightarrow> (code \<Rightarrow> indentfile \<Rightarrow> error + indentfile) \<Rightarrow> string \<Rightarrow> module
     \<Rightarrow> headerfile list \<Rightarrow> string list \<Rightarrow> project \<Rightarrow> files \<Rightarrow> event list
     \<Rightarrow> (result + string list \<times> project \<times> files) \<times> event list" where
  "generate_headers ev csip od md [] hfnames prj fs log = (Inr (hfnames, prj, fs), log)"
| "generate_headers ev csip od md (hf # hfs) hfnames prj fs log =
     (case createSIPFile ev prj od md (Some hf) fs of
        Inl e \<Rightarrow> (Inl (Raised e), log @ [Aborted (sip_path od md (Some hf)) e])
      | Inr (None, prj', fs') \<Rightarrow>
          (Inl (Returned False prj' fs'), log @ [Failed (sip_path od md (Some hf))])
      | Inr (Some f, prj', fs') \<Rightarrow>
          (case HeaderFile_sip csip prj' hf f of
             Inl e \<Rightarrow> (Inl (Raised e), log @ [Created (sip_path od md (Some hf))])
           | Inr f' \<Rightarrow>
               generate_headers ev csip od md hfs (hfnames @ [basename (f_name f')]) prj'
                 (close_file (sip_path od md (Some hf)) f' fs')
                 (log @ [Created (sip_path od md (Some hf))])))"

text \<open>The text of the module's own file, written after the standard header.\<close>

definition write_imports :: "indentfile \<Rightarrow> string list \<Rightarrow> indentfile" where
  "write_imports f ms =
     foldl (\<lambda>g m. IndentFile_write g (''%Import '' @ m @ ''/'' @ m @ ''mod.sip'' @ nl) True)
       f ms"

definition write_root ::
  "project \<Rightarrow> module \<Rightarrow> bool \<Rightarrow> string list \<Rightarrow> indentfile \<Rightarrow> indentfile" where
  "write_root prj md latest_sip hfnames f =
     (let rname = (if p_rootmodule prj \<noteq> [] then p_rootmodule prj @ ''.'' else []);
          version = (if m_version md \<noteq> [] then '', version='' @ m_version md else []);
          f1 = (if latest_sip
                then IndentFile_write f
                       (''%Module(name='' @ rname @ m_name md @ '', keyword_arguments=''
                          @ [CHR 0x22] @ ''Optional'' @ [CHR 0x22] @ version @ '')'' @ nl @ nl)
                       True
                else IndentFile_write f
                       (''%Module '' @ rname @ m_name md @ '' 0'' @ nl @ nl) True);
          external = py_split (p_externalmodules prj);
          top_level_module = (\<forall>m\<in>set (py_split (m_imports md)). m \<in> set external);
          f2 = (if m_imports md \<noteq> []
                then IndentFile_write (write_imports f1 (py_split (m_imports md)))
                       nl True
                else f1);
          f3 = (if top_level_module then
                  (let g1 = (if p_versions prj \<noteq> []
                             then IndentFile_write f2
                                    (''%Timeline {'' @ py_join '' '' (p_versions prj) @ ''}''
                                       @ nl @ nl) True
                             else f2);
                       g2 = (if p_platforms prj \<noteq> []
                             then IndentFile_write g1
                                    (''%Platforms {'' @ p_platforms prj @ ''}'' @ nl @ nl) True
                             else g1)
                   in if p_features prj \<noteq> []
                      then IndentFile_write
                             (foldl (\<lambda>g ft. IndentFile_write g (''%Feature '' @ ft @ nl) True)
                                g2 (py_split (p_features prj)))
                             nl True
                      else g2)
                else f2);
          f4 = (if m_directives md \<noteq> []
                then IndentFile_write (IndentFile_write f3 (m_directives md) True) (nl @ nl) True
                else f3)
      in foldl (\<lambda>g inc. IndentFile_write g (''%Include '' @ inc @ nl) True) f4 hfnames)"

text \<open>
  \<^verbatim>\<open>Project.generateModule(ui, mod, od, saveod, latest_sip)\<close>.
  \<open>save_outputdir\<close> is its first statement, \<open>generate_root\<close> what it does after
  the loop over the header files.
\<close>

definition save_outputdir :: "project \<Rightarrow> string \<Rightarrow> bool \<Rightarrow> project" where
  "save_outputdir prj od saveod =
     (if saveod \<and> p_outputdir prj \<noteq> od then prj\<lparr>p_outputdir := od\<rparr> else prj)"

definition generate_root ::
  "env \<Rightarrow> module \<Rightarrow> string \<Rightarrow> bool \<Rightarrow> string list \<Rightarrow> project \<Rightarrow> files \<Rightarrow> event list
     \<Rightarrow> result \<times> event list" where
  "generate_root ev md od latest_sip hfnames prj fs log =
     (case createSIPFile ev prj od md None fs of
        Inl e \<Rightarrow> (Raised e, log @ [Aborted (sip_path od md None) e])
      | Inr (None, prj', fs') \<Rightarrow>
          (Returned False prj' fs', log @ [Failed (sip_path od md None)])
      | Inr (Some f, prj', fs') \<Rightarrow>
          (Returned True prj'
             (close_file (sip_path od md None) (write_root prj' md latest_sip hfnames f) fs'),
           log @ [Created (sip_path od md None)]))"

definition generateModule ::
  "env \<Rightarrow> (code \<Rightarrow> indentfile \<Rightarrow> error + indentfile) \<Rightarrow> project \<Rightarrow> module \<Rightarrow> string
     \<Rightarrow> bool \<Rightarrow> bool \<Rightarrow> files \<Rightarrow> result \<times> event list" where
  "generateModule ev csip prj md od saveod latest_sip fs =
     (case generate_headers ev csip (env_abspath ev od) md (m_content md) []
             (save_outputdir prj (env_abspath ev od) saveod) fs [] of
        (Inl res, log) \<Rightarrow> (res, log)
      | (Inr (hfnames, prj', fs'), log) \<Rightarrow>
          generate_root ev md (env_abspath ev od) latest_sip hfnames prj' fs' log)"

text \<open>The paths that \<^verbatim>\<open>generateModule\<close> creates, in the order it creates them.\<close>

definition sip_paths :: "string \<Rightarrow> module \<Rightarrow> string list" where
  "sip_paths od md = map (\<lambda>hf. sip_path od md (Some hf)) (m_content md) @ [sip_path od md None]"

text \<open>
  What \<^verbatim>\<open>generateModule\<close> writes to the file of a header file and to the file of
  the module, once the file has been created: the standard header, then
  \<^verbatim>\<open>hf.sip(f, latest_sip)\<close>, or the text of the module with one \<^verbatim>\<open>%Include\<close> for
  each name in \<^verbatim>\<open>hfnames\<close>.
\<close>

definition header_file ::
  "env \<Rightarrow> (code \<Rightarrow> indentfile \<Rightarrow> error + indentfile) \<Rightarrow> project \<Rightarrow> string \<Rightarrow> module
     \<Rightarrow> headerfile \<Rightarrow> error + indentfile" where
  "header_file ev csip prj od md hf =
     HeaderFile_sip csip prj hf (sip_boilerplate ev prj md (Some hf) (sip_path od md (Some hf)))"

definition root_file ::
  "env \<Rightarrow> project \<Rightarrow> string \<Rightarrow> module \<Rightarrow> bool \<Rightarrow> string list \<Rightarrow> indentfile" where
  "root_file ev prj od md latest_sip hfnames =
     write_root prj md latest_sip hfnames
       (sip_boilerplate ev prj md None (sip_path od md None))"

text \<open>
  The files after the files at the paths \<open>ps\<close> have been closed, in this order, with
  the texts of \<open>gs\<close>: a path that comes twice has the text written last.
\<close>

fun written :: "files \<Rightarrow> string list \<Rightarrow> indentfile list \<Rightarrow> files" where
  "written fs (p # ps) (g # gs) = written (fs(p := Some (f_text g))) ps gs"
| "written fs ps gs = fs"

section \<open>Example elements\<close>

definition ex_method :: "string \<Rightarrow> string \<Rightarrow> string \<Rightarrow> string \<Rightarrow> code" where
  "ex_method nm acc sg eg =
     Code [] [] [] [] sg eg (Method nm acc ''void'' False False False False [] [] []) []"

definition ex_class :: "string \<Rightarrow> string \<Rightarrow> code list \<Rightarrow> code" where
  "ex_class nm eg cs = Code [] [] [] [] [] eg (Class nm [] False [] []) cs"

definition ex_manual :: code where
  "ex_manual = Code [] [] [] [] [] [] (ManualCode ''%Include extra.sip'' [] [] [] []) []"

definition ex_prj :: project where
  "ex_prj = \<lparr>p_versions = [''1.0'', ''2.0'', ''3.0''], p_generation = 3, p_dirty = False,
     p_rootmodule = ''PyQt4'', p_platforms = ''WS_X11 WS_WIN'', p_features = ''PyQt_OpenGL'',
     p_externalmodules = [], p_sipcomments = [], p_outputdir = [], p_diagnostic = []\<rparr>"

definition ex_hf :: headerfile where
  "ex_hf = \<lparr>hf_name = ''qwidget.h'', hf_md5 = [], hf_parse = [], hf_status = [],
     hf_sgen = [], hf_egen = [], hf_exportedheadercode = [], hf_moduleheadercode = [],
     hf_modulecode = [], hf_preinitcode = [], hf_initcode = [], hf_postinitcode = [],
     hf_content =
       [ex_class ''A'' []
          [ex_method ''foo'' ''public'' [] [], ex_manual, ex_method ''baz'' [] ''2'' []],
        ex_manual,
        ex_class ''B'' ''1'' [ex_method ''old'' [] [] []]]\<rparr>"

definition ex_parsed :: "code list" where
  "ex_parsed = [ex_class ''A'' [] [ex_method ''baz'' [] [] [], ex_method ''foo'' [] [] []]]"

definition ex_arg :: "string \<Rightarrow> string \<Rightarrow> argument" where
  "ex_arg ty dflt = \<lparr>arg_type = ty, arg_name = ''name'', arg_unnamed = False,
     arg_default = dflt, arg_pytype = [], arg_annos = []\<rparr>"

definition ex_tagged :: code where
  "ex_tagged = Code ''WS_X11 WS_WIN'' ''PyQt_OpenGL'' [] [] ''2'' ''3''
     (ManualCode ''%Include extra.sip'' [] [] [] []) []"

definition ex_env :: env where
  "ex_env = \<lparr>env_abspath = (\<lambda>p. p), env_asctime = ''Tue Nov  3 14:00:00 2026'',
     env_open_error = (\<lambda>p. None)\<rparr>"

definition ex_env_denied :: env where
  "ex_env_denied = \<lparr>env_abspath = (\<lambda>p. p), env_asctime = ''Tue Nov  3 14:00:00 2026'',
     env_open_error =
       (\<lambda>p. if p = ''/out/QtGui/QtGuimod.sip'' then Some (IOError, ''Permission denied'')
            else None)\<rparr>"

definition ex_header :: "string \<Rightarrow> code list \<Rightarrow> headerfile" where
  "ex_header nm cs = \<lparr>hf_name = nm, hf_md5 = [], hf_parse = [], hf_status = [],
     hf_sgen = [], hf_egen = [], hf_exportedheadercode = [], hf_moduleheadercode = [],
     hf_modulecode = [], hf_preinitcode = [], hf_initcode = [], hf_postinitcode = [],
     hf_content = cs\<rparr>"

definition ex_mod :: "headerfile list \<Rightarrow> module" where
  "ex_mod hfs = \<lparr>m_name = ''QtGui'', m_outputdirsuffix = ''QtGui'', m_version = [],
     m_imports = [], m_directives = [], m_content = hfs\<rparr>"

definition ex_dangling :: code where
  "ex_dangling = Code [] [] [] [] ''7'' [] (ManualCode ''%Include extra.sip'' [] [] [] []) []"

definition ex_files :: files where
  "ex_files = (\<lambda>p. None)"

definition ex_nul_header :: headerfile where
  "ex_nul_header = ex_header [CHR ''a'', CHR 0x00, CHR ''b'', CHR ''.'', CHR ''h''] []"
section \<open>Facts about the merge\<close>

lemma bindE_Inr_iff: "bindE m f = Inr y \<longleftrightarrow> (\<exists>x. m = Inr x \<and> f x = Inr y)"
  by (cases m) (simp_all add: bindE_def)

lemma bindE_Inr [simp]: "bindE (Inr x) f = f x"
  by (simp add: bindE_def)

lemma bindE_Inl [simp]: "bindE (Inl e) f = Inl e"
  by (simp add: bindE_def)

lemma py_str_not_Nil: "py_str n \<noteq> []"
  by (subst py_str.simps) simp

lemma find_match_None:
  "find_match d ssc = Inr None \<Longrightarrow> x \<in> set ssc \<Longrightarrow> matches d x = Inr False"
  by (induction ssc) (auto simp: bindE_Inr_iff split: if_splits)

lemma find_match_Some:
  "find_match d ssc = Inr (Some (m, rest)) \<Longrightarrow>
     matches d m = Inr True \<and>
     (\<exists>xs ys. ssc = xs @ m # ys \<and> rest = xs @ ys \<and> (\<forall>x\<in>set xs. matches d x = Inr False))"
proof (induction ssc arbitrary: rest)
  case Nil
  then show ?case by simp
next
  case (Cons s ssc)
  from Cons.prems obtain b where b: "matches d s = Inr b"
    by (auto simp: bindE_Inr_iff)
  show ?case
  proof (cases b)
    case True
    with b Cons.prems have "m = s" "rest = ssc" by simp_all
    with b True have "matches d m = Inr True" and
      "s # ssc = [] @ m # ssc \<and> rest = [] @ ssc \<and> (\<forall>x\<in>set []. matches d x = Inr False)"
      by simp_all
    then show ?thesis by blast
  next
    case False
    with b Cons.prems obtain r where r: "find_match d ssc = Inr (Some (m, r))" "rest = s # r"
      by (auto simp: bindE_Inr_iff)
    from Cons.IH [OF r(1)] obtain xs ys where
      "matches d m = Inr True" "ssc = xs @ m # ys" "r = xs @ ys" "\<forall>x\<in>set xs. matches d x = Inr False"
      by blast
    with b False r(2) have "matches d m = Inr True" and
      "s # ssc = (s # xs) @ m # ys \<and> rest = (s # xs) @ ys
         \<and> (\<forall>x\<in>set (s # xs). matches d x = Inr False)"
      by simp_all
    then show ?thesis by blast
  qed
qed

lemma find_match_subseq:
  "find_match d ssc = Inr (Some (m, rest)) \<Longrightarrow> subseq rest ssc"
  using find_match_Some [of d ssc m rest] by (auto intro!: list_emb_append_mono)

lemma find_match_length:
  "find_match d ssc = Inr (Some (m, rest)) \<Longrightarrow> length ssc = Suc (length rest)"
  using find_match_Some [of d ssc m rest] by auto

lemma find_match_keeps:
  "find_match d ssc = Inr (Some (m, rest)) \<Longrightarrow> s \<in> set ssc \<Longrightarrow> matches d s \<noteq> Inr True \<Longrightarrow> s \<in> set rest"
  using find_match_Some [of d ssc m rest] by auto


lemma mergeItems_Cons_cases:
  assumes "mergeItems gen (d # ds) ssc = Inr (ds', rest)"
  obtains (skip) ds1 where "\<not> active d"
      "mergeItems gen ds ssc = Inr (ds1, rest)" "ds' = d # ds1"
  | (retire) ds1 where "active d" "find_match d ssc = Inr None"
      "mergeItems gen ds ssc = Inr (ds1, rest)" "ds' = set_egen (py_str gen) d # ds1"
  | (merged) m ssc' cs ds1 where "active d" "isContainer d"
      "find_match d ssc = Inr (Some (m, ssc'))"
      "mergeCode gen (content d) (content m) = Inr cs"
      "mergeItems gen ds ssc' = Inr (ds1, rest)" "ds' = set_content cs d # ds1"
  | (kept) m ssc' ds1 where "active d" "\<not> isContainer d"
      "find_match d ssc = Inr (Some (m, ssc'))"
      "mergeItems gen ds ssc' = Inr (ds1, rest)" "ds' = d # ds1"
proof (cases "active d")
  case False
  with assms obtain ds1 where "mergeItems gen ds ssc = Inr (ds1, rest)" "ds' = d # ds1"
    by (auto simp: active_def bindE_Inr_iff split: if_splits)
  with False show ?thesis using skip by blast
next
  case True
  with assms obtain found where f: "find_match d ssc = Inr found"
    by (auto simp: active_def bindE_Inr_iff)
  show ?thesis
  proof (cases found)
    case None
    with True f assms obtain ds1 where
      "mergeItems gen ds ssc = Inr (ds1, rest)" "ds' = set_egen (py_str gen) d # ds1"
      by (auto simp: active_def bindE_Inr_iff)
    with True f None show ?thesis using retire by blast
  next
    case (Some a)
    then obtain m ssc' where a: "found = Some (m, ssc')" by (cases a) simp
    show ?thesis
    proof (cases "isContainer d")
      case c: True
      with True f a assms obtain cs ds1 where
        "mergeCode gen (content d) (content m) = Inr cs"
        "mergeItems gen ds ssc' = Inr (ds1, rest)" "ds' = set_content cs d # ds1"
        by (auto simp: active_def bindE_Inr_iff)
      with True f a c show ?thesis using merged by blast
    next
      case c: False
      with True f a assms obtain ds1 where
        "mergeItems gen ds ssc' = Inr (ds1, rest)" "ds' = d # ds1"
        by (auto simp: active_def bindE_Inr_iff)
      with True f a c show ?thesis using kept by blast
    qed
  qed
qed

lemma egen_set_content [simp]: "egen (set_content cs d) = egen d"
  by (cases d) simp
lemma sgen_set_content [simp]: "sgen (set_content cs d) = sgen d"
  by (cases d) simp
lemma sgen_set_egen [simp]: "sgen (set_egen v d) = sgen d"
  by (cases d) simp
lemma egen_set_egen [simp]: "egen (set_egen v d) = v"
  by (cases d) simp
lemma sgen_set_sgen [simp]: "sgen (set_sgen v d) = v"
  by (cases d) simp

lemma mergeItems_length:
  "mergeItems gen ds ssc = Inr (ds', rest) \<Longrightarrow> length ds' = length ds"
proof (induction ds arbitrary: ssc ds')
  case Nil
  then show ?case by simp
next
  case (Cons d ds)
  from Cons.prems show ?case
    by (cases rule: mergeItems_Cons_cases) (auto dest: Cons.IH)
qed

lemma mergeItems_subseq:
  "mergeItems gen ds ssc = Inr (ds', rest) \<Longrightarrow> subseq rest ssc"
proof (induction ds arbitrary: ssc ds')
  case Nil
  then show ?case by simp
next
  case (Cons d ds)
  from Cons.prems show ?case
    by (cases rule: mergeItems_Cons_cases)
       (auto dest!: Cons.IH find_match_subseq intro: subseq_order.trans)
qed

lemma mergeItems_inactive:
  "mergeItems gen ds ssc = Inr (ds', rest) \<Longrightarrow> i < length ds \<Longrightarrow> \<not> active (ds ! i)
     \<Longrightarrow> ds' ! i = ds ! i"
proof (induction ds arbitrary: ssc ds' i)
  case Nil
  then show ?case by simp
next
  case (Cons d ds)
  from Cons.prems(1) show ?case
  proof (cases rule: mergeItems_Cons_cases)
    case (skip ds1)
    with Cons.prems Cons.IH [of ssc ds1] show ?thesis by (cases i) auto
  next
    case (retire ds1)
    with Cons.prems Cons.IH [of ssc ds1] show ?thesis by (cases i) auto
  next
    case (merged m ssc' cs ds1)
    with Cons.prems Cons.IH [of ssc' ds1] show ?thesis by (cases i) auto
  next
    case (kept m ssc' ds1)
    with Cons.prems Cons.IH [of ssc' ds1] show ?thesis by (cases i) auto
  qed
qed

lemma mergeItems_sgen:
  "mergeItems gen ds ssc = Inr (ds', rest) \<Longrightarrow> i < length ds \<Longrightarrow> sgen (ds' ! i) = sgen (ds ! i)"
proof (induction ds arbitrary: ssc ds' i)
  case Nil
  then show ?case by simp
next
  case (Cons d ds)
  from Cons.prems(1) show ?case
  proof (cases rule: mergeItems_Cons_cases)
    case (skip ds1)
    with Cons.prems Cons.IH [of ssc ds1] show ?thesis by (cases i) auto
  next
    case (retire ds1)
    with Cons.prems Cons.IH [of ssc ds1] show ?thesis by (cases i) auto
  next
    case (merged m ssc' cs ds1)
    with Cons.prems Cons.IH [of ssc' ds1] show ?thesis by (cases i) auto
  next
    case (kept m ssc' ds1)
    with Cons.prems Cons.IH [of ssc' ds1] show ?thesis by (cases i) auto
  qed
qed

lemma mergeItems_retire:
  "mergeItems gen ds ssc = Inr (ds', rest) \<Longrightarrow> i < length ds \<Longrightarrow> active (ds ! i)
     \<Longrightarrow> \<forall>s\<in>set ssc. matches (ds ! i) s \<noteq> Inr True
     \<Longrightarrow> ds' ! i = set_egen (py_str gen) (ds ! i)"
proof (induction ds arbitrary: ssc ds' i)
  case Nil
  then show ?case by simp
next
  case (Cons d ds)
  from Cons.prems(1) show ?case
  proof (cases rule: mergeItems_Cons_cases)
    case (skip ds1)
    with Cons.prems Cons.IH [of ssc ds1] show ?thesis by (cases i) auto
  next
    case (retire ds1)
    with Cons.prems Cons.IH [of ssc ds1] show ?thesis by (cases i) auto
  next
    case (merged m ssc' cs ds1)
    from find_match_Some [OF merged(3)] have m: "matches d m = Inr True" "m \<in> set ssc"
      and sub: "set ssc' \<subseteq> set ssc" by auto
    show ?thesis
    proof (cases i)
      case 0
      with m Cons.prems(4) show ?thesis by auto
    next
      case (Suc j)
      with merged Cons.prems sub Cons.IH [of ssc' ds1 j] show ?thesis by auto
    qed
  next
    case (kept m ssc' ds1)
    from find_match_Some [OF kept(3)] have m: "matches d m = Inr True" "m \<in> set ssc"
      and sub: "set ssc' \<subseteq> set ssc" by auto
    show ?thesis
    proof (cases i)
      case 0
      with m Cons.prems(4) show ?thesis by auto
    next
      case (Suc j)
      with kept Cons.prems sub Cons.IH [of ssc' ds1 j] show ?thesis by auto
    qed
  qed
qed

lemma mergeItems_keep_egen:
  "mergeItems gen ds ssc = Inr (ds', rest) \<Longrightarrow> i < length ds \<Longrightarrow> s \<in> set ssc
     \<Longrightarrow> matches (ds ! i) s = Inr True
     \<Longrightarrow> \<forall>j<i. active (ds ! j) \<longrightarrow> matches (ds ! j) s \<noteq> Inr True
     \<Longrightarrow> egen (ds' ! i) = egen (ds ! i)"
proof (induction ds arbitrary: ssc ds' i)
  case Nil
  then show ?case by simp
next
  case (Cons d ds)
  from Cons.prems(1) show ?case
  proof (cases rule: mergeItems_Cons_cases)
    case (skip ds1)
    show ?thesis
    proof (cases i)
      case 0
      with skip show ?thesis by simp
    next
      case (Suc j)
      with Cons.prems have "\<forall>k<j. active (ds ! k) \<longrightarrow> matches (ds ! k) s \<noteq> Inr True"
        by auto
      with Suc skip Cons.prems Cons.IH [of ssc ds1 j] show ?thesis by auto
    qed
  next
    case (retire ds1)
    show ?thesis
    proof (cases i)
      case 0
      with retire Cons.prems find_match_None [OF retire(2), of s] show ?thesis by simp
    next
      case (Suc j)
      with Cons.prems have "\<forall>k<j. active (ds ! k) \<longrightarrow> matches (ds ! k) s \<noteq> Inr True"
        by auto
      with Suc retire Cons.prems Cons.IH [of ssc ds1 j] show ?thesis by auto
    qed
  next
    case (merged m ssc' cs ds1)
    show ?thesis
    proof (cases i)
      case 0
      with merged show ?thesis by simp
    next
      case (Suc j)
      with Cons.prems merged have "matches d s \<noteq> Inr True" by auto
      with merged Cons.prems have s: "s \<in> set ssc'" by (auto dest: find_match_keeps)
      from Suc Cons.prems have "\<forall>k<j. active (ds ! k) \<longrightarrow> matches (ds ! k) s \<noteq> Inr True"
        by auto
      with s Suc merged Cons.prems Cons.IH [of ssc' ds1 j] show ?thesis by auto
    qed
  next
    case (kept m ssc' ds1)
    show ?thesis
    proof (cases i)
      case 0
      with kept show ?thesis by simp
    next
      case (Suc j)
      with Cons.prems kept have "matches d s \<noteq> Inr True" by auto
      with kept Cons.prems have s: "s \<in> set ssc'" by (auto dest: find_match_keeps)
      from Suc Cons.prems have "\<forall>k<j. active (ds ! k) \<longrightarrow> matches (ds ! k) s \<noteq> Inr True"
        by auto
      with s Suc kept Cons.prems Cons.IH [of ssc' ds1 j] show ?thesis by auto
    qed
  qed
qed


lemma mergeItems_unmatched:
  "mergeItems gen ds ssc = Inr (ds', rest) \<Longrightarrow> s \<in> set ssc
     \<Longrightarrow> \<forall>d\<in>set ds. active d \<longrightarrow> matches d s \<noteq> Inr True
     \<Longrightarrow> s \<in> set rest"
proof (induction ds arbitrary: ssc ds')
  case Nil
  then show ?case by simp
next
  case (Cons d ds)
  from Cons.prems(1) show ?case
  proof (cases rule: mergeItems_Cons_cases)
    case (skip ds1)
    with Cons.prems Cons.IH [of ssc ds1] show ?thesis by simp
  next
    case (retire ds1)
    with Cons.prems Cons.IH [of ssc ds1] show ?thesis by simp
  next
    case (merged m ssc' cs ds1)
    with Cons.prems have "s \<in> set ssc'" by (auto dest: find_match_keeps)
    with merged Cons.prems Cons.IH [of ssc' ds1] show ?thesis by simp
  next
    case (kept m ssc' ds1)
    with Cons.prems have "s \<in> set ssc'" by (auto dest: find_match_keeps)
    with kept Cons.prems Cons.IH [of ssc' ds1] show ?thesis by simp
  qed
qed

lemma isCurrent_set_egen: "isCurrent (set_egen (py_str gen) d) = False"
  by (simp add: isCurrent_def py_str_not_Nil)

lemma isCurrent_set_content: "isCurrent (set_content cs d) = isCurrent d"
  by (simp add: isCurrent_def)

lemma mergeItems_count:
  "mergeItems gen ds ssc = Inr (ds', rest) \<Longrightarrow> length ssc = length rest + consumers ds ds'"
proof (induction ds arbitrary: ssc ds')
  case Nil
  then show ?case by (simp add: consumers_def)
next
  case (Cons d ds)
  from Cons.prems(1) show ?case
  proof (cases rule: mergeItems_Cons_cases)
    case (skip ds1)
    with Cons.IH [of ssc ds1] show ?thesis by (simp add: consumers_def)
  next
    case (retire ds1)
    with Cons.IH [of ssc ds1] show ?thesis
      by (simp add: consumers_def isCurrent_set_egen)
  next
    case (merged m ssc' cs ds1)
    with Cons.IH [of ssc' ds1] find_match_length [OF merged(3)] show ?thesis
      by (simp add: consumers_def isCurrent_set_content active_def)
  next
    case (kept m ssc' ds1)
    with Cons.IH [of ssc' ds1] find_match_length [OF kept(3)] show ?thesis
      by (simp add: consumers_def active_def)
  qed
qed

lemma mergeItems_nth:
  "mergeItems gen ds ssc = Inr (ds', rest) \<Longrightarrow> i < length ds \<Longrightarrow>
     ds' ! i = ds ! i \<or> ds' ! i = set_egen (py_str gen) (ds ! i) \<or>
     (\<exists>m cs. mergeCode gen (content (ds ! i)) (content m) = Inr cs
        \<and> ds' ! i = set_content cs (ds ! i))"
proof (induction ds arbitrary: ssc ds' i)
  case Nil
  then show ?case by simp
next
  case (Cons d ds)
  from Cons.prems(1) show ?case
  proof (cases rule: mergeItems_Cons_cases)
    case (skip ds1)
    with Cons.prems Cons.IH [of ssc ds1] show ?thesis by (cases i) auto
  next
    case (retire ds1)
    with Cons.prems Cons.IH [of ssc ds1] show ?thesis by (cases i) auto
  next
    case (merged m ssc' cs ds1)
    with Cons.prems Cons.IH [of ssc' ds1] show ?thesis by (cases i) auto
  next
    case (kept m ssc' ds1)
    with Cons.prems Cons.IH [of ssc' ds1] show ?thesis by (cases i) auto
  qed
qed

lemma mergeCode_Inr:
  "mergeCode gen ds ssc = Inr res \<longleftrightarrow>
     (\<exists>ds' rest. mergeItems gen ds ssc = Inr (ds', rest)
        \<and> res = ds' @ map (set_sgen (py_str gen)) rest)"
  by (auto simp: mergeCode.simps bindE_Inr_iff)

lemma content_set_egen [simp]: "content (set_egen v d) = content d"
  by (cases d) simp
lemma content_set_content [simp]: "content (set_content cs d) = cs"
  by (cases d) simp

lemma mergeCode_at_path:
  "mergeCode gen ds ssc = Inr res \<Longrightarrow> at_path ds p = Some m \<Longrightarrow> isManualCode m
     \<Longrightarrow> at_path res p = Some m"
proof (induction p arbitrary: ds ssc res)
  case Nil
  then show ?case by simp
next
  case (Cons i p)
  from Cons.prems(2) have i: "i < length ds"
    by (cases p) (auto split: if_splits)
  from Cons.prems(1) obtain ds' rest where
    mi: "mergeItems gen ds ssc = Inr (ds', rest)" and
    res: "res = ds' @ map (set_sgen (py_str gen)) rest"
    by (auto simp: mergeCode_Inr)
  from mi have len: "length ds' = length ds" by (rule mergeItems_length)
  with i res have ri: "i < length res" "res ! i = ds' ! i"
    by (simp_all add: nth_append)
  show ?case
  proof (cases p)
    case Nil
    with Cons.prems(2) i have m: "m = ds ! i" by simp
    with Cons.prems(3) have "\<not> active (ds ! i)" by (simp add: active_def)
    with mi i have "ds' ! i = ds ! i" by (rule mergeItems_inactive)
    with Nil ri m show ?thesis by simp
  next
    case (Cons j q)
    with Cons.prems(2) i have sub: "at_path (content (ds ! i)) p = Some m" by simp
    from mergeItems_nth [OF mi i] consider
      "ds' ! i = ds ! i" | "ds' ! i = set_egen (py_str gen) (ds ! i)"
      | m' cs where "mergeCode gen (content (ds ! i)) (content m') = Inr cs"
          "ds' ! i = set_content cs (ds ! i)"
      by blast
    then have "at_path (content (ds' ! i)) p = Some m"
    proof cases
      case 1
      with sub show ?thesis by simp
    next
      case 2
      with sub show ?thesis by simp
    next
      case 3
      from Cons.IH [OF 3(1) sub Cons.prems(3)] 3(2) show ?thesis by simp
    qed
    with Cons ri show ?thesis by simp
  qed
qed

lemma matches_key: "sig_ok d \<Longrightarrow> sig_ok s \<Longrightarrow> matches d s = Inr (key s = key d)"
  by (auto simp: sig_ok_def matches_def key_def split: sum.splits)

lemma find_match_total:
  "sig_ok d \<Longrightarrow> \<forall>s\<in>set ssc. sig_ok s \<Longrightarrow> \<exists>r. find_match d ssc = Inr r"
  by (induction ssc) (auto simp: matches_key)

lemma find_match_key:
  "sig_ok d \<Longrightarrow> \<forall>s\<in>set ssc. sig_ok s \<Longrightarrow> \<exists>s\<in>set ssc. key s = key d
     \<Longrightarrow> \<exists>m rest. find_match d ssc = Inr (Some (m, rest))"
proof (induction ssc)
  case Nil
  then show ?case by simp
next
  case (Cons s ssc)
  show ?case
  proof (cases "key s = key d")
    case True
    with Cons.prems show ?thesis by (simp add: matches_key)
  next
    case False
    with Cons.prems Cons.IH obtain m rest where "find_match d ssc = Inr (Some (m, rest))"
      by auto
    with False Cons.prems show ?thesis by (simp add: matches_key)
  qed
qed


lemma set_content_content [simp]: "set_content (content d) d = d"
  by (cases d) simp

lemma mergeItems_same:
  assumes nested: "\<And>d s. d \<in> set ds0 \<Longrightarrow> s \<in> set ssc0 \<Longrightarrow> active d \<Longrightarrow> isContainer d
            \<Longrightarrow> key s = key d \<Longrightarrow> mergeCode gen (content d) (content s) = Inr (content d)"
  shows "set ds \<subseteq> set ds0 \<Longrightarrow> set ssc \<subseteq> set ssc0
    \<Longrightarrow> \<forall>s\<in>set ssc. sig_ok s \<Longrightarrow> \<forall>d\<in>set ds. active d \<longrightarrow> sig_ok d
    \<Longrightarrow> distinct (map key ssc) \<Longrightarrow> distinct (map key (filter active ds))
    \<Longrightarrow> \<forall>d\<in>set ds. active d \<longrightarrow> (\<exists>s\<in>set ssc. key s = key d)
    \<Longrightarrow> \<forall>s\<in>set ssc. \<exists>d\<in>set ds. active d \<and> key s = key d
    \<Longrightarrow> mergeItems gen ds ssc = Inr (ds, [])"
proof (induction ds arbitrary: ssc)
  case Nil
  then have "ssc = []" by (cases ssc) auto
  then show ?case by simp
next
  case (Cons d ds)
  show ?case
  proof (cases "active d")
    case False
    with Cons.prems have "mergeItems gen ds ssc = Inr (ds, [])"
      by (intro Cons.IH) auto
    with False show ?thesis by (auto simp: active_def)
  next
    case True
    with Cons.prems have okd: "sig_ok d" by simp
    from True Cons.prems(7) have "\<exists>s\<in>set ssc. key s = key d" by simp
    with okd Cons.prems(3) obtain m ssc' where
      fm: "find_match d ssc = Inr (Some (m, ssc'))"
      using find_match_key by blast
    from find_match_Some [OF fm] obtain xs ys where
      mt: "matches d m = Inr True" and ssc: "ssc = xs @ m # ys" and ssc': "ssc' = xs @ ys"
      by blast
    from ssc Cons.prems(3) have okm: "sig_ok m" by simp
    with okd mt have km: "key m = key d" by (simp add: matches_key)
    from ssc Cons.prems(5) have nm: "key m \<notin> key ` set ssc'" and d': "distinct (map key ssc')"
      by (auto simp: ssc')
    from True Cons.prems(6) have nd: "key d \<notin> key ` set (filter active ds)"
      and dd: "distinct (map key (filter active ds))"
      by auto
    have sub: "set ssc' \<subseteq> set ssc" by (auto simp: ssc ssc')
    have a: "\<forall>x\<in>set ds. active x \<longrightarrow> (\<exists>s\<in>set ssc'. key s = key x)"
    proof (intro ballI impI)
      fix x assume x: "x \<in> set ds" "active x"
      with Cons.prems(7) obtain s where s: "s \<in> set ssc" "key s = key x" by auto
      from x have "key x \<in> key ` set (filter active ds)" by simp
      with nd have "key x \<noteq> key d" by metis
      with s km have "s \<noteq> m" by auto
      with s(1) have "s \<in> set ssc'" by (auto simp: ssc ssc')
      with s(2) show "\<exists>s\<in>set ssc'. key s = key x" by blast
    qed
    have b: "\<forall>s\<in>set ssc'. \<exists>x\<in>set ds. active x \<and> key s = key x"
    proof
      fix s assume s: "s \<in> set ssc'"
      with sub Cons.prems(8) obtain x where x: "x \<in> set (d # ds)" "active x" "key s = key x"
        by blast
      from s nm km have "key s \<noteq> key d" by (metis imageI)
      with x have "x \<in> set ds" by auto
      with x show "\<exists>x\<in>set ds. active x \<and> key s = key x" by blast
    qed
    have rest: "mergeItems gen ds ssc' = Inr (ds, [])"
      using Cons.prems sub d' dd a b by (intro Cons.IH) auto
    show ?thesis
    proof (cases "isContainer d")
      case c: True
      from ssc Cons.prems(1,2) have "d \<in> set ds0" "m \<in> set ssc0" by auto
      then have "mergeCode gen (content d) (content m) = Inr (content d)"
        using True c km by (rule nested)
      with True c fm rest show ?thesis by (simp add: active_def)
    next
      case c: False
      with True fm rest show ?thesis by (simp add: active_def)
    qed
  qed
qed

lemma mergeCode_same:
  "same_declarations ds ssc \<Longrightarrow> mergeCode gen ds ssc = Inr ds"
proof (induction ds ssc rule: same_declarations.induct)
  case (1 ds ssc)
  note sd = "1.prems" [unfolded same_declarations.simps [of ds ssc]]
  have nested: "mergeCode gen (content d) (content s) = Inr (content d)"
    if "d \<in> set ds" "s \<in> set ssc" "active d" "isContainer d" "key s = key d" for d s
    using that sd by (intro "1.IH") auto
  have "mergeItems gen ds ssc = Inr (ds, [])"
    using sd by (intro mergeItems_same [where ?ds0.0 = ds and ?ssc0.0 = ssc] nested) auto
  then show ?case by (simp add: mergeCode.simps)
qed


lemma all_sig_ok_content: "all_sig_ok c \<Longrightarrow> x \<in> set (content c) \<Longrightarrow> all_sig_ok x"
  by (cases c) simp

lemma all_sig_ok_sig: "all_sig_ok c \<Longrightarrow> sig_ok c"
  by (cases c) simp

lemma mergeItems_total:
  assumes nested: "\<And>d s. d \<in> set ds0 \<Longrightarrow> s \<in> set ssc0
            \<Longrightarrow> \<exists>cs. mergeCode gen (content d) (content s) = Inr cs"
  shows "set ds \<subseteq> set ds0 \<Longrightarrow> set ssc \<subseteq> set ssc0
    \<Longrightarrow> \<forall>d\<in>set ds. sig_ok d \<Longrightarrow> \<forall>s\<in>set ssc. sig_ok s
    \<Longrightarrow> \<exists>ds' rest. mergeItems gen ds ssc = Inr (ds', rest)"
proof (induction ds arbitrary: ssc)
  case Nil
  then show ?case by simp
next
  case (Cons d ds)
  from Cons.prems have skip: "\<exists>ds' rest. mergeItems gen ds ssc = Inr (ds', rest)"
    by (intro Cons.IH) auto
  show ?case
  proof (cases "active d")
    case False
    with skip show ?thesis by (auto simp: active_def)
  next
    case True
    from Cons.prems obtain r where fm: "find_match d ssc = Inr r"
      using find_match_total [of d ssc] by auto
    show ?thesis
    proof (cases r)
      case None
      with True fm skip show ?thesis by (auto simp: active_def)
    next
      case (Some a)
      then obtain m ssc' where r: "r = Some (m, ssc')" by (cases a) simp
      from find_match_Some [OF fm [unfolded r]] have m: "m \<in> set ssc"
        and sub: "set ssc' \<subseteq> set ssc" by auto
      with Cons.prems have "\<exists>ds' rest. mergeItems gen ds ssc' = Inr (ds', rest)"
        by (intro Cons.IH) auto
      moreover from m Cons.prems
      have "\<exists>cs. mergeCode gen (content d) (content m) = Inr cs"
        by (intro nested) auto
      ultimately show ?thesis using True fm r by (auto simp: active_def)
    qed
  qed
qed

lemma mergeCode_total:
  "\<forall>d\<in>set ds. all_sig_ok d \<Longrightarrow> \<forall>s\<in>set ssc. all_sig_ok s
     \<Longrightarrow> \<exists>res. mergeCode gen ds ssc = Inr res"
proof (induction "size_list size ds" arbitrary: ds ssc rule: less_induct)
  case less
  have nested: "\<exists>cs. mergeCode gen (content d) (content s) = Inr cs"
    if "d \<in> set ds" "s \<in> set ssc" for d s
  proof -
    have "size_list size (content d) < size d" by (cases d) simp
    with that(1) have "size_list size (content d) < size_list size ds"
      by (rule size_list_estimation)
    moreover from that less.prems have "\<forall>x\<in>set (content d). all_sig_ok x"
      "\<forall>x\<in>set (content s). all_sig_ok x"
      by (auto dest: all_sig_ok_content)
    ultimately show ?thesis by (rule less.hyps)
  qed
  from less.prems have "\<exists>ds' rest. mergeItems gen ds ssc = Inr (ds', rest)"
    by (intro mergeItems_total [where ?ds0.0 = ds and ?ssc0.0 = ssc] nested)
       (auto dest: all_sig_ok_sig)
  then show ?case by (auto simp: mergeCode.simps)
qed

text \<open>
  The loop of \<^verbatim>\<open>_mergeCode\<close> when it reaches the child at position \<open>i\<close>: the parsed
  items that are left are those that the loop over the children before it leaves.
\<close>

lemma mergeItems_at:
  "mergeItems gen ds ssc = Inr (ds', rest) \<Longrightarrow> i < length ds \<Longrightarrow> active (ds ! i) \<Longrightarrow>
     \<exists>ds0 rest0. mergeItems gen (take i ds) ssc = Inr (ds0, rest0) \<and>
       (find_match (ds ! i) rest0 = Inr None \<and> ds' ! i = set_egen (py_str gen) (ds ! i)
        \<or> (\<exists>m r. find_match (ds ! i) rest0 = Inr (Some (m, r)) \<and>
              egen (ds' ! i) = egen (ds ! i)))"
proof (induction ds arbitrary: ssc ds' i)
  case Nil
  then show ?case by simp
next
  case (Cons d ds)
  show ?case
  proof (cases i)
    case 0
    from Cons.prems(1) show ?thesis
    proof (cases rule: mergeItems_Cons_cases)
      case (skip ds1)
      with 0 Cons.prems(3) show ?thesis by simp
    next
      case (retire ds1)
      with 0 show ?thesis by simp
    next
      case (merged m ssc' cs ds1)
      with 0 show ?thesis by simp
    next
      case (kept m ssc' ds1)
      with 0 show ?thesis by simp
    qed
  next
    case (Suc j)
    with Cons.prems have j: "j < length ds" "active (ds ! j)" by simp_all
    from Cons.prems(1) show ?thesis
    proof (cases rule: mergeItems_Cons_cases)
      case (skip ds1)
      from Cons.IH [OF skip(2) j] obtain ds0 rest0 where
        a: "mergeItems gen (take j ds) ssc = Inr (ds0, rest0)" and
        b: "find_match (ds ! j) rest0 = Inr None \<and> ds1 ! j = set_egen (py_str gen) (ds ! j)
        \<or> (\<exists>m r. find_match (ds ! j) rest0 = Inr (Some (m, r)) \<and>
              egen (ds1 ! j) = egen (ds ! j))"
        by blast
      from a skip(1) have "mergeItems gen (take i (d # ds)) ssc = Inr (d # ds0, rest0)"
        by (auto simp: Suc active_def)
      with b skip(3) Suc show ?thesis by auto
    next
      case (retire ds1)
      from Cons.IH [OF retire(3) j] obtain ds0 rest0 where
        a: "mergeItems gen (take j ds) ssc = Inr (ds0, rest0)" and
        b: "find_match (ds ! j) rest0 = Inr None \<and> ds1 ! j = set_egen (py_str gen) (ds ! j)
        \<or> (\<exists>m r. find_match (ds ! j) rest0 = Inr (Some (m, r)) \<and>
              egen (ds1 ! j) = egen (ds ! j))"
        by blast
      from a retire(1,2) have "mergeItems gen (take i (d # ds)) ssc
          = Inr (set_egen (py_str gen) d # ds0, rest0)"
        by (auto simp: Suc active_def)
      with b retire(4) Suc show ?thesis by auto
    next
      case (merged m ssc' cs ds1)
      from Cons.IH [OF merged(5) j] obtain ds0 rest0 where
        a: "mergeItems gen (take j ds) ssc' = Inr (ds0, rest0)" and
        b: "find_match (ds ! j) rest0 = Inr None \<and> ds1 ! j = set_egen (py_str gen) (ds ! j)
        \<or> (\<exists>m r. find_match (ds ! j) rest0 = Inr (Some (m, r)) \<and>
              egen (ds1 ! j) = egen (ds ! j))"
        by blast
      from a merged(1,2,3,4) have "mergeItems gen (take i (d # ds)) ssc
          = Inr (set_content cs d # ds0, rest0)"
        by (auto simp: Suc active_def)
      with b merged(6) Suc show ?thesis by auto
    next
      case (kept m ssc' ds1)
      from Cons.IH [OF kept(4) j] obtain ds0 rest0 where
        a: "mergeItems gen (take j ds) ssc' = Inr (ds0, rest0)" and
        b: "find_match (ds ! j) rest0 = Inr None \<and> ds1 ! j = set_egen (py_str gen) (ds ! j)
        \<or> (\<exists>m r. find_match (ds ! j) rest0 = Inr (Some (m, r)) \<and>
              egen (ds1 ! j) = egen (ds ! j))"
        by blast
      from a kept(1,2,3) have "mergeItems gen (take i (d # ds)) ssc = Inr (d # ds0, rest0)"
        by (auto simp: Suc active_def)
      with b kept(5) Suc show ?thesis by auto
    qed
  qed
qed

lemma mergeItems_prefix:
  "mergeItems gen ds ssc = Inr (ds', rest) \<Longrightarrow>
     \<exists>ds0 rest0. mergeItems gen (take i ds) ssc = Inr (ds0, rest0)"
proof (induction ds arbitrary: ssc ds' i)
  case Nil
  then show ?case by simp
next
  case (Cons d ds)
  show ?case
  proof (cases i)
    case 0
    then show ?thesis by simp
  next
    case (Suc j)
    from Cons.prems show ?thesis
    proof (cases rule: mergeItems_Cons_cases)
      case (skip ds1)
      from Cons.IH [OF skip(2), of j] skip(1) show ?thesis
        by (auto simp: Suc active_def)
    next
      case (retire ds1)
      from Cons.IH [OF retire(3), of j] retire(1,2) show ?thesis
        by (auto simp: Suc active_def)
    next
      case (merged m ssc' cs ds1)
      from Cons.IH [OF merged(5), of j] merged(1,2,3,4) show ?thesis
        by (auto simp: Suc active_def)
    next
      case (kept m ssc' ds1)
      from Cons.IH [OF kept(4), of j] kept(1,2,3) show ?thesis
        by (auto simp: Suc active_def)
    qed
  qed
qed

lemma mergeItems_before:
  assumes "mergeItems gen (take i ds) ssc = Inr (ds0, rest0)" and "i < length ds"
    and "s \<in> set ssc"
  shows "s \<in> set rest0
     \<or> (\<exists>j<i. isCurrent (ds ! j) \<and> \<not> isManualCode (ds ! j) \<and> matches (ds ! j) s = Inr True)"
proof (cases "s \<in> set rest0")
  case True
  then show ?thesis ..
next
  case False
  with mergeItems_unmatched [OF assms(1) assms(3)] obtain d where
    d: "d \<in> set (take i ds)" "active d" "matches d s = Inr True"
    by blast
  from d(1) obtain j where "j < length (take i ds)" "take i ds ! j = d"
    by (auto simp: in_set_conv_nth)
  with assms(2) have "j < i" "ds ! j = d" by simp_all
  with d(2,3) show ?thesis by (auto simp: active_def)
qed
section \<open>Retirement, manual code, retired children and new items\<close>

lemma mergeItems_consumed:
  "mergeItems gen ds ssc = Inr (ds', rest) \<Longrightarrow> s \<in> set ssc \<Longrightarrow>
     s \<in> set rest \<or> (\<exists>d\<in>set ds. active d \<and> matches d s = Inr True)"
  using mergeItems_unmatched [of gen ds ssc ds' rest s] by blast

lemma ex_method_sel [simp]:
  "sgen (ex_method n a sg eg) = sg" "egen (ex_method n a sg eg) = eg"
  by (simp_all add: ex_method_def)

lemma ex_class_sel [simp]:
  "content (ex_class n eg cs) = cs" "egen (ex_class n eg cs) = eg"
  by (simp_all add: ex_class_def)

lemma ex_manual_manual [simp]: "isManualCode ex_manual"
  by (simp add: ex_manual_def isManualCode_def)

lemma ex_merge_methods:
  "mergeCode 2 [ex_method ''foo'' [] [] [], ex_method ''bar'' [] [] []]
       [ex_method ''foo'' [] [] []]
     = Inr [ex_method ''foo'' [] [] [], ex_method ''bar'' [] [] ''2'']"
  by code_simp

lemma ex_merge_prefix:
  "mergeItems 2 (take 1 [ex_method ''foo'' [] [] [], ex_method ''bar'' [] [] []])
       [ex_method ''foo'' [] [] []]
     = Inr ([ex_method ''foo'' [] [] []], [])"
  by code_simp

lemma ex_merge_duplicate:
  "mergeCode 2 [ex_method ''foo'' [] [] [], ex_method ''foo'' ''public'' [] []]
       [ex_method ''foo'' [] [] []]
     = Inr [ex_method ''foo'' [] [] [], ex_method ''foo'' ''public'' [] ''2'']"
  by code_simp

lemma ex_duplicate_matches:
  "matches (ex_method ''foo'' ''public'' [] []) (ex_method ''foo'' [] [] []) = Inr True"
  by code_simp

lemma ex_method_current [simp]:
  "isCurrent (ex_method n a sg [])" "\<not> isManualCode (ex_method n a sg eg)"
  by (simp_all add: isCurrent_def isManualCode_def ex_method_def)





lemma mergePasses_at_path:
  "mergePasses ds ps = Inr res \<Longrightarrow> at_path ds p = Some m \<Longrightarrow> isManualCode m
     \<Longrightarrow> at_path res p = Some m"
proof (induction ps arbitrary: ds)
  case Nil
  then show ?case by simp
next
  case (Cons a ps)
  obtain gen ssc where a: "a = (gen, ssc)" by (cases a)
  with Cons.prems(1) obtain ds' where
    one: "mergeCode gen ds ssc = Inr ds'" and more: "mergePasses ds' ps = Inr res"
    by (auto simp: bindE_Inr_iff)
  from one Cons.prems(2,3) have "at_path ds' p = Some m"
    by (rule mergeCode_at_path)
  with more show ?case using Cons.prems(3) by (rule Cons.IH)
qed

lemma ex_merge_manual:
  "mergeCode 2 [ex_manual] [ex_manual] = Inr [ex_manual, set_sgen ''2'' ex_manual]"
  by code_simp

lemma ex_merge_passes:
  "mergePasses [ex_class ''A'' [] [ex_manual, ex_method ''foo'' [] [] []]]
       [(2, [ex_class ''A'' [] [ex_manual, ex_method ''bar'' [] [] []]]), (3, [])]
     = Inr [ex_class ''A'' ''3''
              [ex_manual, ex_method ''foo'' [] [] ''2'',
               set_sgen ''2'' ex_manual, ex_method ''bar'' [] ''2'' []]]"
  by code_simp

text \<open>
  C2.  Whatever the passes and their parsed items are, a \<^verbatim>\<open>ManualCode\<close> element of
  the container, at any depth, is found after the passes at the same path of positions
  and is the same element, field for field.  It is never matched: a parsed item that
  only manual code and retired children match is appended as a new item.
\<close>

theorem manual_code_sticky:
  "(mergePasses ds ps = Inr res \<and> at_path ds p = Some m \<and> isManualCode m
      \<longrightarrow> at_path res p = Some m) \<and>
   (mergeCode gen cs ssc = Inr res' \<and> s \<in> set ssc \<and>
    (\<forall>d\<in>set cs. matches d s = Inr True \<longrightarrow> isManualCode d \<or> \<not> isCurrent d)
      \<longrightarrow> set_sgen (py_str gen) s \<in> set (drop (length cs) res'))"
proof -
  have "at_path res p = Some m"
    if "mergePasses ds ps = Inr res" "at_path ds p = Some m" "isManualCode m"
    using that mergePasses_at_path by blast
  moreover have "set_sgen (py_str gen) s \<in> set (drop (length cs) res')"
    if m: "mergeCode gen cs ssc = Inr res'" and s: "s \<in> set ssc" and
      d: "\<forall>d\<in>set cs. matches d s = Inr True \<longrightarrow> isManualCode d \<or> \<not> isCurrent d"
  proof -
    from m obtain ds' rest where
      mi: "mergeItems gen cs ssc = Inr (ds', rest)" and
      res: "res' = ds' @ map (set_sgen (py_str gen)) rest"
      by (auto simp: mergeCode_Inr)
    from d have "\<forall>d\<in>set cs. active d \<longrightarrow> matches d s \<noteq> Inr True"
      by (auto simp: active_def)
    with mi s have "s \<in> set rest" by (rule mergeItems_unmatched)
    with res mergeItems_length [OF mi] show ?thesis by simp
  qed
  ultimately show ?thesis by blast
qed

theorem manual_code_sticky_witness:
  "mergePasses [ex_class ''A'' [] [ex_manual, ex_method ''foo'' [] [] []]]
       [(2, [ex_class ''A'' [] [ex_manual, ex_method ''bar'' [] [] []]]), (3, [])]
     = Inr [ex_class ''A'' ''3''
              [ex_manual, ex_method ''foo'' [] [] ''2'',
               set_sgen ''2'' ex_manual, ex_method ''bar'' [] ''2'' []]]
   \<and> at_path [ex_class ''A'' [] [ex_manual, ex_method ''foo'' [] [] []]] [0, 0]
       = Some ex_manual
   \<and> isManualCode ex_manual
   \<and> at_path [ex_class ''A'' ''3''
              [ex_manual, ex_method ''foo'' [] [] ''2'',
               set_sgen ''2'' ex_manual, ex_method ''bar'' [] ''2'' []]] [0, 0]
       = Some ex_manual
   \<and> mergeCode 2 [ex_manual] [ex_manual] = Inr [ex_manual, set_sgen ''2'' ex_manual]
   \<and> matches ex_manual ex_manual = Inr True
   \<and> set_sgen (py_str 2) ex_manual
       \<in> set (drop (length [ex_manual]) [ex_manual, set_sgen ''2'' ex_manual])"
proof -
  have p: "at_path [ex_class ''A'' [] [ex_manual, ex_method ''foo'' [] [] []]] [0, 0]
      = Some ex_manual"
    by simp
  have m: "isManualCode ex_manual" by simp
  have mt: "matches ex_manual ex_manual = Inr True"
    by (simp add: matches_def ex_manual_def)
  have s: "ex_manual \<in> set [ex_manual]" by simp
  have d: "\<forall>d\<in>set [ex_manual].
      matches d ex_manual = Inr True \<longrightarrow> isManualCode d \<or> \<not> isCurrent d"
    by simp
  note t = manual_code_sticky
      [of "[ex_class ''A'' [] [ex_manual, ex_method ''foo'' [] [] []]]" _ _ "[0, 0]"
          ex_manual 2 "[ex_manual]" "[ex_manual]" _ ex_manual]
  from t [THEN conjunct1] ex_merge_passes p m
  have a: "at_path [ex_class ''A'' ''3''
              [ex_manual, ex_method ''foo'' [] [] ''2'',
               set_sgen ''2'' ex_manual, ex_method ''bar'' [] ''2'' []]] [0, 0]
       = Some ex_manual"
    by blast
  from t [THEN conjunct2] ex_merge_manual s d
  have b: "set_sgen (py_str 2) ex_manual
       \<in> set (drop (length [ex_manual]) [ex_manual, set_sgen ''2'' ex_manual])"
    by blast
  from ex_merge_passes p m a ex_merge_manual mt b show ?thesis by (intro conjI)
qed

lemma ex_merge_retired:
  "mergeCode 3 [ex_method ''bar'' [] [] ''2''] [ex_method ''bar'' [] [] []]
     = Inr [ex_method ''bar'' [] [] ''2'', ex_method ''bar'' [] ''3'' []]"
  by code_simp

text \<open>
  C3.  A child that is not current is the same element after the merge.  A parsed item
  that no current child other than manual code matches is appended with its start
  generation set, whatever the retired children are: a retired child of the same class
  and signature does not consume it.
\<close>

theorem retired_children_frozen:
  "mergeCode gen ds ssc = Inr res \<Longrightarrow>
     (\<forall>i<length ds. \<not> isCurrent (ds ! i) \<longrightarrow> res ! i = ds ! i) \<and>
     (\<forall>s\<in>set ssc.
        (\<forall>d\<in>set ds. isCurrent d \<and> \<not> isManualCode d \<longrightarrow> matches d s \<noteq> Inr True)
        \<longrightarrow> set_sgen (py_str gen) s \<in> set (drop (length ds) res))"
proof -
  assume m: "mergeCode gen ds ssc = Inr res"
  then obtain ds' rest where
    mi: "mergeItems gen ds ssc = Inr (ds', rest)" and
    res: "res = ds' @ map (set_sgen (py_str gen)) rest"
    by (auto simp: mergeCode_Inr)
  from mi have len: "length ds' = length ds" by (rule mergeItems_length)
  have "res ! i = ds ! i" if "i < length ds" "\<not> isCurrent (ds ! i)" for i
    using mergeItems_inactive [OF mi that(1)] that len res
    by (simp add: active_def nth_append)
  moreover have "set_sgen (py_str gen) s \<in> set (drop (length ds) res)"
    if "s \<in> set ssc"
       "\<forall>d\<in>set ds. isCurrent d \<and> \<not> isManualCode d \<longrightarrow> matches d s \<noteq> Inr True" for s
  proof -
    from that have "s \<in> set rest"
      using mergeItems_unmatched [OF mi, of s] by (simp add: active_def)
    with res len show ?thesis by simp
  qed
  ultimately show ?thesis by blast
qed

theorem retired_children_frozen_witness:
  "mergeCode 3 [ex_method ''bar'' [] [] ''2''] [ex_method ''bar'' [] [] []]
     = Inr [ex_method ''bar'' [] [] ''2'', ex_method ''bar'' [] ''3'' []]
   \<and> \<not> isCurrent ([ex_method ''bar'' [] [] ''2''] ! 0)
   \<and> [ex_method ''bar'' [] [] ''2'', ex_method ''bar'' [] ''3'' []] ! 0
       = [ex_method ''bar'' [] [] ''2''] ! 0
   \<and> set_sgen (py_str 3) (ex_method ''bar'' [] [] [])
       \<in> set (drop (length [ex_method ''bar'' [] [] ''2''])
                 [ex_method ''bar'' [] [] ''2'', ex_method ''bar'' [] ''3'' []])"
  using retired_children_frozen [OF ex_merge_retired]
  by (simp add: ex_merge_retired isCurrent_def)

text \<open>
  C4.  The result of a merge is the existing children as the loop over them leaves
  them, one for one, followed by the parsed items that the loop did not consume.  These
  keep their parsed order, each has its start generation set to
  \<^verbatim>\<open>str(project.generation)\<close> and is otherwise as parsed, their number is the number of
  parsed items less the children that consumed one, and a parsed item that matches no
  compared child is among them.
\<close>

theorem new_items_appended:
  "mergeCode gen ds ssc = Inr res \<Longrightarrow>
     \<exists>ds' rest.
       mergeItems gen ds ssc = Inr (ds', rest) \<and>
       length ds' = length ds \<and>
       res = ds' @ map (set_sgen (py_str gen)) rest \<and>
       subseq rest ssc \<and>
       length rest + consumers ds ds' = length ssc \<and>
       (\<forall>s\<in>set ssc. s \<in> set rest
          \<or> (\<exists>d\<in>set ds. isCurrent d \<and> \<not> isManualCode d \<and> matches d s = Inr True)) \<and>
       (\<forall>x\<in>set (drop (length ds) res). sgen x = py_str gen)"
proof -
  assume m: "mergeCode gen ds ssc = Inr res"
  then obtain ds' rest where
    mi: "mergeItems gen ds ssc = Inr (ds', rest)" and
    res: "res = ds' @ map (set_sgen (py_str gen)) rest"
    by (auto simp: mergeCode_Inr)
  from mi have len: "length ds' = length ds" by (rule mergeItems_length)
  from mi have sub: "subseq rest ssc" by (rule mergeItems_subseq)
  from mi have cnt: "length rest + consumers ds ds' = length ssc"
    by (simp add: mergeItems_count)
  have cons: "\<forall>s\<in>set ssc. s \<in> set rest
      \<or> (\<exists>d\<in>set ds. isCurrent d \<and> \<not> isManualCode d \<and> matches d s = Inr True)"
    using mergeItems_consumed [OF mi] by (auto simp: active_def)
  have new: "\<forall>x\<in>set (drop (length ds) res). sgen x = py_str gen"
    using res len by auto
  from mi len res sub cnt cons new show ?thesis by blast
qed

theorem new_items_appended_witness:
  "mergeCode 3 [ex_method ''bar'' [] [] ''2''] [ex_method ''bar'' [] [] []]
     = Inr [ex_method ''bar'' [] [] ''2'', ex_method ''bar'' [] ''3'' []]
   \<and> (\<exists>ds' rest.
       mergeItems 3 [ex_method ''bar'' [] [] ''2''] [ex_method ''bar'' [] [] []]
         = Inr (ds', rest) \<and>
       length ds' = length [ex_method ''bar'' [] [] ''2''] \<and>
       [ex_method ''bar'' [] [] ''2'', ex_method ''bar'' [] ''3'' []]
         = ds' @ map (set_sgen (py_str 3)) rest \<and>
       subseq rest [ex_method ''bar'' [] [] []])"
  using new_items_appended [OF ex_merge_retired]
  by (auto simp: ex_merge_retired)

section \<open>Merging an unchanged parse\<close>

lemma ex_same_declarations: "same_declarations (hf_content ex_hf) ex_parsed"
  by code_simp

text \<open>
  C5, as stated, fails: the project is clean before \<^verbatim>\<open>addParsedHeaderFile\<close> merges
  an unchanged parse, and dirty after it.
\<close>

theorem merge_idempotent_dirty_counterexample:
  "same_declarations (hf_content ex_hf) ex_parsed \<and>
   p_dirty ex_prj = False \<and>
   addParsedHeaderFile ex_prj ex_hf ex_parsed = Inr (ex_hf, ex_prj\<lparr>p_dirty := True\<rparr>) \<and>
   p_dirty (ex_prj\<lparr>p_dirty := True\<rparr>) \<noteq> p_dirty ex_prj"
proof -
  have "mergeCode (p_generation ex_prj) (hf_content ex_hf) ex_parsed = Inr (hf_content ex_hf)"
    using ex_same_declarations by (rule mergeCode_same)
  then have "addParsedHeaderFile ex_prj ex_hf ex_parsed = Inr (ex_hf, ex_prj\<lparr>p_dirty := True\<rparr>)"
    by (simp add: addParsedHeaderFile_def)
  moreover have "p_dirty ex_prj = False" by (simp add: ex_prj_def)
  ultimately show ?thesis using ex_same_declarations by simp
qed

text \<open>
  C5, amended.  When the parse is unchanged, the merge returns the children of the header
  file as they were, so that no element below it has a start or end generation changed;
  the project is marked dirty whatever its flag was.
\<close>

theorem merge_unchanged_parse:
  "same_declarations (hf_content hf) phf \<Longrightarrow>
     mergeCode (p_generation prj) (hf_content hf) phf = Inr (hf_content hf) \<and>
     addParsedHeaderFile prj hf phf = Inr (hf, prj\<lparr>p_dirty := True\<rparr>)"
proof -
  assume "same_declarations (hf_content hf) phf"
  then have "mergeCode (p_generation prj) (hf_content hf) phf = Inr (hf_content hf)"
    by (rule mergeCode_same)
  then show ?thesis by (simp add: addParsedHeaderFile_def)
qed

theorem merge_unchanged_parse_witness:
  "same_declarations (hf_content ex_hf) ex_parsed \<and>
   mergeCode (p_generation ex_prj) (hf_content ex_hf) ex_parsed = Inr (hf_content ex_hf) \<and>
   addParsedHeaderFile ex_prj ex_hf ex_parsed = Inr (ex_hf, ex_prj\<lparr>p_dirty := True\<rparr>)"
  using merge_unchanged_parse [OF ex_same_declarations, of ex_prj] ex_same_declarations
  by (intro conjI) simp_all

section \<open>Access in signatures\<close>

lemma py_replace_absent:
  "old \<noteq> [] \<Longrightarrow> \<not> contains s old \<Longrightarrow> py_replace old new s = s"
  by (induction s) auto

lemma expandType_plain:
  "\<not> contains t ''long int'' \<Longrightarrow> \<not> contains t ''%s'' \<Longrightarrow> expandType t [] = Inr t"
  by (simp add: expandType_def py_replace_absent)

lemma signature_Method:
  "decl m = Method n a r v c s ab pt pa as \<Longrightarrow>
     signature m = bindE (callable_sig r [] n as)
       (\<lambda>t. Inr ((if v then ''virtual '' else []) @ (if s then ''static '' else []) @ t
                 @ (if c then '' const'' else []) @ (if ab then '' = 0'' else [])
                 @ sigAccess a))"
  by (cases m) simp

lemma sigAccess_public: "first_word a ''public'' \<Longrightarrow> sigAccess a = []"
  by (auto simp: first_word_def sigAccess_def split: list.splits)

lemma sigAccess_signals: "first_word a ''signals'' \<Longrightarrow> sigAccess a = ''protected''"
  by (auto simp: first_word_def sigAccess_def split: list.splits)

lemma sigAccess_empty: "sigAccess [] = []"
  by (simp add: sigAccess_def py_split_def)

lemma sigAccess_protected: "sigAccess ''protected'' = ''protected''"
  by (simp add: sigAccess_def py_split_def isspace_def)

lemma merge_single_match:
  "isCurrent d \<Longrightarrow> \<not> isContainer d \<Longrightarrow> \<not> isManualCode d \<Longrightarrow> matches d s = Inr True
     \<Longrightarrow> mergeCode gen [d] [s] = Inr [d]"
  by (simp add: mergeCode.simps)

text \<open>
  C10.  An access whose first word is \<open>public\<close> gives the same \<^verbatim>\<open>sigAccess\<close> as the
  empty access, namely nothing, and one whose first word is \<open>signals\<close> gives
  \<open>protected\<close>.  Two methods that differ in nothing that \<^verbatim>\<open>Method.signature\<close> reads
  but such a pair of accesses have the same signature; when it is defined they match each
  other in \<^verbatim>\<open>_mergeCode\<close>, and merging the one as the only parsed item into the other
  as the only, current, child leaves that child as it is and adds nothing.
\<close>

theorem access_normalised:
  "(first_word a ''public'' \<longrightarrow> sigAccess a = sigAccess []) \<and>
   (first_word a ''signals'' \<longrightarrow> sigAccess a = sigAccess ''protected'') \<and>
   sigAccess [] = [] \<and> sigAccess ''protected'' = ''protected'' \<and>
   (decl m1 = Method n a1 r v c s ab pt1 pa1 as \<and>
    decl m2 = Method n a2 r v c s ab pt2 pa2 as \<and>
    (first_word a1 ''public'' \<and> a2 = [] \<or> first_word a1 ''signals'' \<and> a2 = ''protected'')
    \<longrightarrow> signature m1 = signature m2 \<and>
        (sig_ok m1 \<longrightarrow> matches m1 m2 = Inr True \<and> matches m2 m1 = Inr True) \<and>
        (sig_ok m1 \<and> isCurrent m1 \<longrightarrow> mergeCode gen [m1] [m2] = Inr [m1]))"
proof -
  have acc: "sigAccess a1 = sigAccess a2"
    if "first_word a1 ''public'' \<and> a2 = [] \<or> first_word a1 ''signals'' \<and> a2 = ''protected''"
    for a1 a2
    using that
    by (auto simp: sigAccess_public sigAccess_signals sigAccess_empty sigAccess_protected)
  have meth: "signature m1 = signature m2 \<and>
        (sig_ok m1 \<longrightarrow> matches m1 m2 = Inr True \<and> matches m2 m1 = Inr True) \<and>
        (sig_ok m1 \<and> isCurrent m1 \<longrightarrow> mergeCode gen [m1] [m2] = Inr [m1])"
    if d1: "decl m1 = Method n a1 r v c s ab pt1 pa1 as"
      and d2: "decl m2 = Method n a2 r v c s ab pt2 pa2 as"
      and a: "first_word a1 ''public'' \<and> a2 = [] \<or> first_word a1 ''signals'' \<and> a2 = ''protected''"
  proof -
    from acc [OF a] d1 d2 have eq: "signature m1 = signature m2"
      by (simp add: signature_Method)
    from d1 d2 have k: "kind_of (decl m1) = kind_of (decl m2)" by simp
    have mt: "matches m1 m2 = Inr True \<and> matches m2 m1 = Inr True" if "sig_ok m1"
      using that eq k by (auto simp: matches_def sig_ok_def split: sum.splits)
    from d1 have "\<not> isContainer m1" "\<not> isManualCode m1"
      by (simp_all add: isContainer_def isManualCode_def)
    then have "mergeCode gen [m1] [m2] = Inr [m1]" if "sig_ok m1" "isCurrent m1"
      using that mt by (intro merge_single_match) auto
    with eq mt show ?thesis by blast
  qed
  show ?thesis
    using acc [of a "[]"] acc [of a "''protected''"] meth sigAccess_empty sigAccess_protected
    by blast
qed

lemma ex_first_words:
  "first_word ''public slots'' ''public''" "first_word ''signals'' ''signals''"
  by (simp_all add: first_word_def py_split_def isspace_def)

lemma ex_method_ok: "sig_ok (ex_method n a sg eg)"
  by (simp add: sig_ok_def ex_method_def callable_sig_def expandType_plain)

lemma ex_method_decl:
  "decl (ex_method n a sg eg) = Method n a ''void'' False False False False [] [] []"
  by (simp add: ex_method_def)

theorem access_normalised_witness:
  "first_word ''public slots'' ''public'' \<and> first_word ''signals'' ''signals'' \<and>
   sigAccess ''public slots'' = sigAccess [] \<and>
   sigAccess ''signals'' = sigAccess ''protected'' \<and>
   signature (ex_method ''foo'' ''public slots'' [] []) = signature (ex_method ''foo'' [] ''3'' []) \<and>
   signature (ex_method ''foo'' ''signals'' [] []) = signature (ex_method ''foo'' ''protected'' ''3'' []) \<and>
   sig_ok (ex_method ''foo'' ''public slots'' [] []) \<and>
   isCurrent (ex_method ''foo'' ''public slots'' [] []) \<and>
   mergeCode 3 [ex_method ''foo'' ''public slots'' [] []] [ex_method ''foo'' [] ''3'' []]
     = Inr [ex_method ''foo'' ''public slots'' [] []]"
  using access_normalised [of "''public slots''" "ex_method ''foo'' ''public slots'' [] []"
      "''foo''" "''public slots''" "''void''" False False False False "[]" "[]" "[]"
      "ex_method ''foo'' [] ''3'' []" "[]" "[]" "[]" 3]
    access_normalised [of "''signals''" "ex_method ''foo'' ''signals'' [] []"
      "''foo''" "''signals''" "''void''" False False False False "[]" "[]" "[]"
      "ex_method ''foo'' ''protected'' ''3'' []" "''protected''" "[]" "[]" 3]
  by (simp add: ex_first_words ex_method_ok ex_method_decl isCurrent_def)

section \<open>Signatures of arguments\<close>

lemma ex_arg_cex:
  "Argument_signature (ex_arg ''const QString &'' []) = Inr ''const QString &''"
  "Argument_signature (ex_arg ''const QString&   '' []) = Inr ''const QString&   ''"
  by (simp_all add: Argument_signature_def expandType_plain ex_arg_def)

text \<open>
  C6, as stated, fails: the two arguments have the same default value and types that
  differ in whitespace only, and their signatures differ.
\<close>

theorem argument_signature_whitespace_counterexample:
  "arg_default (ex_arg ''const QString &'' []) = arg_default (ex_arg ''const QString&   '' []) \<and>
   filter (\<lambda>c. \<not> isspace c) (arg_type (ex_arg ''const QString &'' []))
     = filter (\<lambda>c. \<not> isspace c) (arg_type (ex_arg ''const QString&   '' [])) \<and>
   Argument_signature (ex_arg ''const QString &'' [])
     \<noteq> Argument_signature (ex_arg ''const QString&   '' [])"
  by (simp add: ex_arg_cex) (simp add: ex_arg_def isspace_def)

lemma Argument_signature_with_py_format:
  "Argument_signature_with py_format a = Argument_signature a"
  by (simp add: Argument_signature_with_def Argument_signature_def expandType_with_def
        expandType_def)

lemma ex_arg_format:
  "Argument_signature (ex_arg ''x %s'' []) = Inr ''x ''"
  "Argument_signature (ex_arg ''x%s '' []) = Inr ''x ''"
  by (simp_all add: Argument_signature_def expandType_def py_format_def ex_arg_def)

text \<open>
  C6, amended.  \<^verbatim>\<open>Argument.signature\<close> does not normalise whitespace.  For a type
  without \<^verbatim>\<open>long int\<close> and without \<^verbatim>\<open>%s\<close> the signature is the type text as it is,
  followed by \<^verbatim>\<open> = \<close> and the default value when there is one; so two such arguments
  with the same default value have equal signatures exactly when their type texts are
  equal, whitespace included.  (With \<^verbatim>\<open>%s\<close> in the type this is not so: \<^verbatim>\<open>x %s\<close>
  and \<^verbatim>\<open>x%s \<close> have the same signature.)  Two arguments with the same type text, for
  which the signature is defined, have equal signatures exactly when their default
  values are equal, whatever the operator \<^verbatim>\<open>%\<close> gives for the type.
\<close>

theorem argument_signature_text:
  "(\<not> contains (arg_type a) ''long int'' \<and> \<not> contains (arg_type a) ''%s''
      \<longrightarrow> Argument_signature a
          = Inr (arg_type a @ (if arg_default a \<noteq> [] then '' = '' @ arg_default a else []))) \<and>
   (\<not> contains (arg_type a) ''long int'' \<and> \<not> contains (arg_type a) ''%s'' \<and>
    \<not> contains (arg_type b) ''long int'' \<and> \<not> contains (arg_type b) ''%s'' \<and>
    arg_default a = arg_default b
      \<longrightarrow> (Argument_signature a = Argument_signature b \<longleftrightarrow> arg_type a = arg_type b)) \<and>
   Argument_signature (ex_arg ''x %s'' []) = Argument_signature (ex_arg ''x%s '' []) \<and>
   Argument_signature_with py_format a = Argument_signature a \<and>
   (arg_type a = arg_type b \<and> (\<exists>s. Argument_signature_with fmt a = Inr s)
      \<longrightarrow> (Argument_signature_with fmt a = Argument_signature_with fmt b
            \<longleftrightarrow> arg_default a = arg_default b))"
proof (intro conjI impI)
  assume "\<not> contains (arg_type a) ''long int'' \<and> \<not> contains (arg_type a) ''%s''"
  then show "Argument_signature a
      = Inr (arg_type a @ (if arg_default a \<noteq> [] then '' = '' @ arg_default a else []))"
    by (simp add: Argument_signature_def expandType_plain)
next
  assume h: "\<not> contains (arg_type a) ''long int'' \<and> \<not> contains (arg_type a) ''%s'' \<and>
    \<not> contains (arg_type b) ''long int'' \<and> \<not> contains (arg_type b) ''%s'' \<and>
    arg_default a = arg_default b"
  then show "Argument_signature a = Argument_signature b \<longleftrightarrow> arg_type a = arg_type b"
    by (simp add: Argument_signature_def expandType_plain)
next
  show "Argument_signature (ex_arg ''x %s'' []) = Argument_signature (ex_arg ''x%s '' [])"
    by (simp add: ex_arg_format)
next
  show "Argument_signature_with py_format a = Argument_signature a"
    by (rule Argument_signature_with_py_format)
next
  assume h: "arg_type a = arg_type b \<and> (\<exists>s. Argument_signature_with fmt a = Inr s)"
  then obtain t where t: "expandType_with fmt (arg_type a) [] = Inr t"
    by (auto simp: Argument_signature_with_def bindE_Inr_iff)
  with h show "Argument_signature_with fmt a = Argument_signature_with fmt b
      \<longleftrightarrow> arg_default a = arg_default b"
    by (auto simp: Argument_signature_with_def)
qed

lemma ex_arg_int:
  "Argument_signature (ex_arg ''int'' ''0'') = Inr ''int = 0''"
  by (simp add: Argument_signature_def expandType_plain ex_arg_def)

theorem argument_signature_text_witness:
  "arg_type (ex_arg ''int'' ''0'') = arg_type (ex_arg ''int'' ''1'') \<and>
   Argument_signature (ex_arg ''int'' ''0'') = Inr ''int = 0'' \<and>
   \<not> contains (arg_type (ex_arg ''int'' ''0'')) ''long int'' \<and>
   \<not> contains (arg_type (ex_arg ''int'' ''0'')) ''%s'' \<and>
   arg_default (ex_arg ''int'' ''0'') \<noteq> arg_default (ex_arg ''int'' ''1'') \<and>
   Argument_signature (ex_arg ''int'' ''0'') \<noteq> Argument_signature (ex_arg ''int'' ''1'') \<and>
   \<not> contains (arg_type (ex_arg ''const QString &'' [])) ''long int'' \<and>
   \<not> contains (arg_type (ex_arg ''const QString &'' [])) ''%s'' \<and>
   \<not> contains (arg_type (ex_arg ''const QString&   '' [])) ''long int'' \<and>
   \<not> contains (arg_type (ex_arg ''const QString&   '' [])) ''%s'' \<and>
   arg_default (ex_arg ''const QString &'' []) = arg_default (ex_arg ''const QString&   '' []) \<and>
   arg_type (ex_arg ''const QString &'' []) \<noteq> arg_type (ex_arg ''const QString&   '' []) \<and>
   Argument_signature (ex_arg ''const QString &'' [])
     \<noteq> Argument_signature (ex_arg ''const QString&   '' [])"
proof -
  let ?a = "ex_arg ''int'' ''0''" and ?b = "ex_arg ''int'' ''1''"
  let ?c = "ex_arg ''const QString &'' []" and ?d = "ex_arg ''const QString&   '' []"
  have t: "arg_type ?a = arg_type ?b" by (simp add: ex_arg_def)
  have d: "arg_default ?a \<noteq> arg_default ?b" by (simp add: ex_arg_def)
  have c: "\<not> contains (arg_type ?a) ''long int''" "\<not> contains (arg_type ?a) ''%s''"
    by (simp_all add: ex_arg_def)
  have q: "\<not> contains (arg_type ?c) ''long int''" "\<not> contains (arg_type ?c) ''%s''"
    "\<not> contains (arg_type ?d) ''long int''" "\<not> contains (arg_type ?d) ''%s''"
    by (simp_all add: ex_arg_def)
  have e: "arg_default ?c = arg_default ?d" "arg_type ?c \<noteq> arg_type ?d"
    by (simp_all add: ex_arg_def)
  note th = argument_signature_text [of ?a ?b py_format]
  from th have w: "Argument_signature_with py_format ?a = Argument_signature ?a"
    by (rule conjunct2 [THEN conjunct2, THEN conjunct2, THEN conjunct1])
  from argument_signature_text [of ?b] have w': "Argument_signature_with py_format ?b
      = Argument_signature ?b"
    by (rule conjunct2 [THEN conjunct2, THEN conjunct2, THEN conjunct1])
  from th t d ex_arg_int w w'
  have n: "Argument_signature ?a \<noteq> Argument_signature ?b"
    by simp
  from argument_signature_text [of ?c ?d, THEN conjunct2, THEN conjunct1] q e(1)
  have "Argument_signature ?c = Argument_signature ?d \<longleftrightarrow> arg_type ?c = arg_type ?d"
    by blast
  with e(2) have m: "Argument_signature ?c \<noteq> Argument_signature ?d"
    by blast
  from t ex_arg_int c d n q e m show ?thesis by (intro conjI)
qed

section \<open>Version ranges\<close>

lemma version_at_index:
  "py_int s = Inr i \<Longrightarrow> 1 \<le> i \<Longrightarrow> i \<le> int (length (p_versions prj))
     \<Longrightarrow> version_at prj s = Inr (p_versions prj ! nat (i - 1))"
  by (simp add: version_at_def py_index_def)

lemma py_int_examples:
  "py_int ''1'' = Inr 1" "py_int ''2'' = Inr 2" "py_int ''3'' = Inr 3"
  by (simp_all add: py_int_def int_strip_def int_space_def int_unsigned_def isdigit_def
        digit_val_def int_max_str_digits_def)

lemma py_int_separator: "py_int [CHR 0x1C, CHR ''2''] = Inl ValueError"
  by (simp add: py_int_def int_strip_def int_space_def int_unsigned_def isdigit_def)

lemma digit_char_digit: "isdigit (digit_char n)"
  by (simp only: isdigit_def digit_char_def) (rule nth_mem, simp)

lemma digit_val_digit_char: "digit_val (digit_char n) = n mod 10"
proof -
  have "n mod 10 < 10" by simp
  then consider "n mod 10 = 0" | "n mod 10 = 1" | "n mod 10 = 2" | "n mod 10 = 3"
    | "n mod 10 = 4" | "n mod 10 = 5" | "n mod 10 = 6" | "n mod 10 = 7" | "n mod 10 = 8"
    | "n mod 10 = 9"
    by atomize_elim arith
  then show ?thesis by cases (simp_all add: digit_val_def digit_char_def)
qed

lemma isdigit_not_space: "isdigit c \<Longrightarrow> \<not> int_space c \<and> c \<noteq> CHR ''-'' \<and> c \<noteq> CHR ''+''"
  by (auto simp: isdigit_def int_space_def)

lemma py_str_digits: "c \<in> set (py_str n) \<Longrightarrow> isdigit c"
proof (induction n arbitrary: c rule: py_str.induct)
  case (1 n)
  then show ?case
    by (subst (asm) py_str.simps) (auto simp: digit_char_digit split: if_splits)
qed

lemma int_digits_foldl:
  "\<forall>c\<in>set xs. isdigit c \<Longrightarrow>
     int_digits acc xs = Some (foldl (\<lambda>a c. 10 * a + digit_val c) acc xs)"
  by (induction xs arbitrary: acc) simp_all

lemma py_str_value: "foldl (\<lambda>a c. 10 * a + digit_val c) 0 (py_str n) = n"
proof (induction n rule: py_str.induct)
  case (1 n)
  show ?case
  proof (cases "n < 10")
    case True
    then show ?thesis by (subst py_str.simps) (simp add: digit_val_digit_char)
  next
    case False
    with 1 show ?thesis by (subst py_str.simps) (simp add: digit_val_digit_char)
  qed
qed

lemma int_strip_no_space: "\<forall>c\<in>set s. \<not> int_space c \<Longrightarrow> int_strip s = s"
proof (cases s)
  case Nil
  then show ?thesis by (simp add: int_strip_def)
next
  case (Cons a list)
  assume ns: "\<forall>c\<in>set s. \<not> int_space c"
  with Cons have 1: "dropWhile int_space s = s" by simp
  from Cons have "rev s \<noteq> []" by simp
  moreover have "hd (rev s) = last s" using Cons by (simp only: hd_rev)
  moreover have "last s \<in> set s" using Cons by simp
  moreover note ns
  ultimately have "dropWhile int_space (rev s) = rev s"
    by (metis dropWhile_eq_self_iff)
  with 1 show ?thesis by (simp add: int_strip_def)
qed

lemma py_int_py_str:
  assumes "length (py_str n) \<le> int_max_str_digits"
  shows "py_int (py_str n) = Inr (int n)"
proof -
  have d: "\<forall>c\<in>set (py_str n). isdigit c" by (simp add: py_str_digits)
  then have s: "int_strip (py_str n) = py_str n"
    by (intro int_strip_no_space) (auto dest: isdigit_not_space)
  obtain c cs where cs: "py_str n = c # cs"
    by (cases "py_str n") (auto simp: py_str_not_Nil)
  with d have c: "isdigit c" by simp
  from d have f: "filter isdigit (py_str n) = py_str n" by simp
  from d have "int_digits 0 (py_str n) = Some n"
    by (simp add: int_digits_foldl py_str_value)
  with c cs f assms have "int_unsigned (c # cs) = Some n"
    by (simp add: int_unsigned_def)
  with s cs c show ?thesis
    by (simp add: py_int_def isdigit_not_space)
qed

lemma py_int_nonempty: "py_int s = Inr i \<Longrightarrow> s \<noteq> []"
  by (auto simp: py_int_def int_strip_def)

text \<open>
  C7.  With the versions \<open>1.0\<close>, \<open>2.0\<close>, \<open>3.0\<close>, \<^verbatim>\<open>versionRange\<close> gives the four
  texts of the specification.  In general an endpoint that \<^verbatim>\<open>int()\<close> reads as \<open>i\<close>,
  from 1 to the number of versions, selects the label at position \<open>i - 1\<close> (from 0) of
  the list; the endpoint \<^verbatim>\<open>str(n)\<close> that a merge stores is read as \<open>n\<close> (up to the
  4300 digits that \<^verbatim>\<open>int()\<close> accepts).  An endpoint that \<^verbatim>\<open>int()\<close> rejects makes
  \<^verbatim>\<open>versionRange\<close> raise the same exception.
\<close>

theorem versionRange_labels:
  "(p_versions prj = [''1.0'', ''2.0'', ''3.0''] \<longrightarrow>
      versionRange prj [] [] = Inr [] \<and>
      versionRange prj [] ''2'' = Inr ''- 2.0'' \<and>
      versionRange prj ''1'' [] = Inr ''1.0 -'' \<and>
      versionRange prj ''2'' ''3'' = Inr ''2.0 - 3.0'') \<and>
   (py_int s = Inr i \<and> 1 \<le> i \<and> i \<le> int (length (p_versions prj)) \<longrightarrow>
      version_at prj s = Inr (p_versions prj ! nat (i - 1)) \<and>
      versionRange prj s [] = Inr (p_versions prj ! nat (i - 1) @ '' -'') \<and>
      versionRange prj [] s = Inr (''- '' @ p_versions prj ! nat (i - 1))) \<and>
   (0 < n \<and> n \<le> length (p_versions prj) \<and> length (py_str n) \<le> int_max_str_digits \<longrightarrow>
      version_at prj (py_str n) = Inr (p_versions prj ! (n - 1))) \<and>
   (py_int t = Inl e \<and> t \<noteq> [] \<longrightarrow>
      versionRange prj t [] = Inl e \<and> versionRange prj [] t = Inl e)"
proof (intro conjI impI)
  assume v: "p_versions prj = [''1.0'', ''2.0'', ''3.0'']"
  have at: "version_at prj ''1'' = Inr ''1.0''" "version_at prj ''2'' = Inr ''2.0''"
    "version_at prj ''3'' = Inr ''3.0''"
    using v by (simp_all add: version_at_def py_int_examples py_index_def)
  show "versionRange prj [] [] = Inr []" by (simp add: versionRange_def)
  show "versionRange prj [] ''2'' = Inr ''- 2.0''" by (simp add: versionRange_def at)
  show "versionRange prj ''1'' [] = Inr ''1.0 -''" by (simp add: versionRange_def at)
  show "versionRange prj ''2'' ''3'' = Inr ''2.0 - 3.0''" by (simp add: versionRange_def at)
next
  assume h: "py_int s = Inr i \<and> 1 \<le> i \<and> i \<le> int (length (p_versions prj))"
  then have at: "version_at prj s = Inr (p_versions prj ! nat (i - 1))"
    by (simp add: version_at_index)
  from h have ne: "s \<noteq> []" by (auto simp: py_int_nonempty)
  show "version_at prj s = Inr (p_versions prj ! nat (i - 1))" by (rule at)
  show "versionRange prj s [] = Inr (p_versions prj ! nat (i - 1) @ '' -'')"
    using at ne by (simp add: versionRange_def)
  show "versionRange prj [] s = Inr (''- '' @ p_versions prj ! nat (i - 1))"
    using at ne by (simp add: versionRange_def)
next
  assume "0 < n \<and> n \<le> length (p_versions prj) \<and> length (py_str n) \<le> int_max_str_digits"
  then have "version_at prj (py_str n) = Inr (p_versions prj ! nat (int n - 1))"
    by (intro version_at_index [OF py_int_py_str]) auto
  moreover have "nat (int n - 1) = n - 1" by simp
  ultimately show "version_at prj (py_str n) = Inr (p_versions prj ! (n - 1))" by simp
next
  assume h: "py_int t = Inl e \<and> t \<noteq> []"
  then show "versionRange prj t [] = Inl e" by (simp add: versionRange_def version_at_def)
  from h show "versionRange prj [] t = Inl e" by (simp add: versionRange_def version_at_def)
qed

theorem versionRange_labels_witness:
  "p_versions ex_prj = [''1.0'', ''2.0'', ''3.0''] \<and>
   py_int ''2'' = Inr 2 \<and> (1::int) \<le> 2 \<and> 2 \<le> int (length (p_versions ex_prj)) \<and>
   versionRange ex_prj [] [] = Inr [] \<and>
   versionRange ex_prj [] ''2'' = Inr ''- 2.0'' \<and>
   versionRange ex_prj ''1'' [] = Inr ''1.0 -'' \<and>
   versionRange ex_prj ''2'' ''3'' = Inr ''2.0 - 3.0'' \<and>
   version_at ex_prj ''2'' = Inr (p_versions ex_prj ! nat (2 - 1)) \<and>
   (0::nat) < 3 \<and> 3 \<le> length (p_versions ex_prj) \<and>
   length (py_str 3) \<le> int_max_str_digits \<and>
   version_at ex_prj (py_str 3) = Inr (p_versions ex_prj ! (3 - 1)) \<and>
   py_int [CHR 0x1C, CHR ''2''] = Inl ValueError \<and>
   versionRange ex_prj [CHR 0x1C, CHR ''2''] [] = Inl ValueError"
proof -
  have l: "length (py_str 3) \<le> int_max_str_digits"
    by (subst py_str.simps) (simp add: int_max_str_digits_def)
  have v: "p_versions ex_prj = [''1.0'', ''2.0'', ''3.0'']" by (simp add: ex_prj_def)
  note t = versionRange_labels [of ex_prj "''2''" 2 3 "[CHR 0x1C, CHR ''2'']" ValueError]
  from t v have a: "versionRange ex_prj [] [] = Inr []"
    "versionRange ex_prj [] ''2'' = Inr ''- 2.0''"
    "versionRange ex_prj ''1'' [] = Inr ''1.0 -''"
    "versionRange ex_prj ''2'' ''3'' = Inr ''2.0 - 3.0''"
    by simp_all
  from t v py_int_examples(2)
  have b: "version_at ex_prj ''2'' = Inr (p_versions ex_prj ! nat (2 - 1))"
    by simp
  from t v l have c: "version_at ex_prj (py_str 3) = Inr (p_versions ex_prj ! (3 - 1))"
    by simp
  from t py_int_separator have d: "versionRange ex_prj [CHR 0x1C, CHR ''2''] [] = Inl ValueError"
    by simp
  from v py_int_examples(2) a b l c py_int_separator d show ?thesis
    by (intro conjI) simp_all
qed

section \<open>Conditions around a child in a SIP file\<close>

lemma split_nl_aux_ne: "split_nl_aux cur s \<noteq> []"
  by (induction s arbitrary: cur) auto

lemma split_nl_aux_concat:
  "concat (map (\<lambda>l. l @ nl) (butlast (split_nl_aux cur s))) @ last (split_nl_aux cur s)
     = cur @ s"
proof (induction s arbitrary: cur)
  case Nil
  then show ?case by simp
next
  case (Cons c s)
  show ?case
  proof (cases "c = CHR 0x0A")
    case True
    with Cons.IH [of "[]"] split_nl_aux_ne [of "[]" s] show ?thesis by (simp add: nl_def)
  next
    case False
    with Cons.IH [of "cur @ [c]"] show ?thesis by simp
  qed
qed

lemma foldl_write_line_text:
  "f_text (foldl (write_line False) f ls) = f_text f @ concat (map (\<lambda>l. l @ nl) ls)"
  by (induction ls arbitrary: f) (simp_all add: write_line_def)

lemma foldl_write_line_blank:
  "f_blank (foldl (write_line ind) f ls) = f_blank f"
  by (induction ls arbitrary: f) (simp_all add: write_line_def)

text \<open>A write without indentation adds a pending blank line and the data as they are.\<close>

lemma write_noindent_text:
  assumes "data \<noteq> []"
  shows "f_text (IndentFile_write f data False)
     = f_text f @ (if f_blank f then nl else []) @ data"
proof -
  define ls where "ls = split_nl_aux [] data"
  have d: "concat (map (\<lambda>l. l @ nl) (butlast ls)) @ last ls = data"
    using split_nl_aux_concat [of "[]" data] by (simp add: ls_def)
  show ?thesis
  proof (cases "last ls = []")
    case True
    with d have "concat (map (\<lambda>l. l @ nl) (butlast ls)) = data" by simp
    with True assms show ?thesis
      by (simp add: IndentFile_write_def Let_def foldl_write_line_text split_nl_def
            ls_def [symmetric])
  next
    case False
    with d assms show ?thesis
      by (simp add: IndentFile_write_def Let_def foldl_write_line_text split_nl_def
            ls_def [symmetric])
  qed
qed

lemma write_blank:
  "data \<noteq> [] \<Longrightarrow> f_blank (IndentFile_write f data ind) = False"
  by (simp add: IndentFile_write_def Let_def foldl_write_line_blank)

lemma nl_not_Nil [simp]: "nl \<noteq> []"
  by (simp add: nl_def)

lemma open_conditions_text:
  "f_text (open_conditions vrange c f) = f_text f @ appended f (opening_lines vrange c)"
  by (cases "vrange = []"; cases "platforms c = []"; cases "features c = []")
     (simp_all add: open_conditions_def write_noindent_text write_blank appended_def
        opening_lines_def)

lemma close_conditions_text:
  "f_text (close_conditions vrange c f) = f_text f @ appended f (closing_lines vrange c)"
  by (cases "vrange = []"; cases "platforms c = []"; cases "features c = []")
     (simp_all add: close_conditions_def write_noindent_text write_blank appended_def
        closing_lines_def)

lemma sip_wrapped_Inr:
  "sip_wrapped csip prj c f = Inr f' \<longleftrightarrow>
     (\<exists>vrange f4. versionRange prj (sgen c) (egen c) = Inr vrange \<and>
        csip c (open_conditions vrange c f) = Inr f4 \<and> f' = close_conditions vrange c f4)"
  by (auto simp: sip_wrapped_def bindE_Inr_iff)

lemma py_split_Nil [simp]: "py_split [] = []"
  by (simp add: py_split_def)

lemma ex_tagged_sip:
  "sip_wrapped element_sip ex_prj ex_tagged (IndentFile_init ''x.sip'' 4)
     = Inr \<lparr>f_name = ''x.sip'',
            f_text = ''%If (2.0 - 3.0)'' @ nl @ ''%If (WS_X11 || WS_WIN)'' @ nl
              @ ''%If (PyQt_OpenGL)'' @ nl @ ''%Include extra.sip'' @ nl
              @ ''%End'' @ nl @ ''%End'' @ nl @ ''%End'' @ nl,
            f_indent = 4, f_nrindents = 0, f_indentnext = True, f_blank = False,
            f_suppressblank = False\<rparr>"
  by code_simp

text \<open>
  C8.  In \<^verbatim>\<open>Code.sip\<close> and in the loop of \<^verbatim>\<open>Class.sip\<close> a child whose status is
  not empty is passed over, and one whose status is empty is written by \<open>sip_wrapped\<close>.
  That adds to the file the opening lines, the \<^verbatim>\<open>%If\<close> of the generation range, then that of the platforms, then that of the
  features, each only when its tag is not empty; then what the child writes; then one
  \<^verbatim>\<open>%End\<close> for each \<^verbatim>\<open>%If\<close>.  With a range, two platforms and one feature these
  are three \<^verbatim>\<open>%If\<close> lines, the platforms joined by \<^verbatim>\<open> || \<close> in one of them, and
  three \<^verbatim>\<open>%End\<close> lines; with no tag there is none.
\<close>

theorem sip_conditions_nested:
  "(status c \<noteq> [] \<longrightarrow>
      Code_sip csip prj (c # cs) f = Code_sip csip prj cs f \<and>
      Class_sip_children csip prj acc (c # cs) f = Class_sip_children csip prj acc cs f) \<and>
   (status c = [] \<and> Code_sip csip prj (c # cs) f = Inr g \<longrightarrow>
      (\<exists>f'. sip_wrapped csip prj c f = Inr f' \<and> Code_sip csip prj cs f' = Inr g)) \<and>
   (status c = [] \<and> Class_sip_children csip prj acc (c # cs) f = Inr g \<longrightarrow>
      (\<exists>f0 f' acc'. sip_wrapped csip prj c f0 = Inr f'
         \<and> Class_sip_children csip prj acc' cs f' = Inr g)) \<and>
   (sip_wrapped csip prj c f = Inr f' \<longrightarrow>
      (\<exists>vrange f3 f4.
         versionRange prj (sgen c) (egen c) = Inr vrange \<and>
         f_text f3 = f_text f @ appended f (opening_lines vrange c) \<and>
         csip c f3 = Inr f4 \<and>
         f_text f' = f_text f4 @ appended f4 (closing_lines vrange c))) \<and>
   (vr \<noteq> [] \<and> py_split (platforms c) = [p1, p2] \<and> py_split (features c) = [ft] \<longrightarrow>
      opening_lines vr c
        = ''%If ('' @ vr @ '')'' @ nl @ ''%If ('' @ p1 @ '' || '' @ p2 @ '')'' @ nl
            @ ''%If ('' @ ft @ '')'' @ nl \<and>
      closing_lines vr c = ''%End'' @ nl @ ''%End'' @ nl @ ''%End'' @ nl) \<and>
   (vr = [] \<and> platforms c = [] \<and> features c = [] \<longrightarrow>
      opening_lines vr c = [] \<and> closing_lines vr c = [])"
proof (intro conjI impI)
  assume "status c \<noteq> []"
  then show "Code_sip csip prj (c # cs) f = Code_sip csip prj cs f"
    "Class_sip_children csip prj acc (c # cs) f = Class_sip_children csip prj acc cs f"
    by simp_all
next
  assume "status c = [] \<and> Code_sip csip prj (c # cs) f = Inr g"
  then show "\<exists>f'. sip_wrapped csip prj c f = Inr f' \<and> Code_sip csip prj cs f' = Inr g"
    by (auto simp: bindE_Inr_iff)
next
  assume "status c = [] \<and> Class_sip_children csip prj acc (c # cs) f = Inr g"
  then show "\<exists>f0 f' acc'. sip_wrapped csip prj c f0 = Inr f'
         \<and> Class_sip_children csip prj acc' cs f' = Inr g"
    by (auto simp: bindE_Inr_iff Let_def split: if_splits)
next
  assume "sip_wrapped csip prj c f = Inr f'"
  then obtain vrange f4 where
    "versionRange prj (sgen c) (egen c) = Inr vrange"
    "csip c (open_conditions vrange c f) = Inr f4" "f' = close_conditions vrange c f4"
    by (auto simp: sip_wrapped_Inr)
  then show "\<exists>vrange f3 f4.
         versionRange prj (sgen c) (egen c) = Inr vrange \<and>
         f_text f3 = f_text f @ appended f (opening_lines vrange c) \<and>
         csip c f3 = Inr f4 \<and>
         f_text f' = f_text f4 @ appended f4 (closing_lines vrange c)"
    using open_conditions_text [of vrange c f] close_conditions_text [of vrange c f4]
    by blast
next
  assume h: "vr \<noteq> [] \<and> py_split (platforms c) = [p1, p2] \<and> py_split (features c) = [ft]"
  then have ne: "platforms c \<noteq> []" "features c \<noteq> []" by auto
  with h show "opening_lines vr c
        = ''%If ('' @ vr @ '')'' @ nl @ ''%If ('' @ p1 @ '' || '' @ p2 @ '')'' @ nl
            @ ''%If ('' @ ft @ '')'' @ nl"
    by (simp add: opening_lines_def)
  from h ne show "closing_lines vr c = ''%End'' @ nl @ ''%End'' @ nl @ ''%End'' @ nl"
    by (simp add: closing_lines_def)
next
  assume h: "vr = [] \<and> platforms c = [] \<and> features c = []"
  then show "opening_lines vr c = []" by (simp add: opening_lines_def)
  from h show "closing_lines vr c = []" by (simp add: closing_lines_def)
qed

theorem sip_conditions_nested_witness:
  "status ex_tagged = [] \<and>
   Code_sip element_sip ex_prj [ex_tagged] (IndentFile_init ''x.sip'' 4)
     = Inr \<lparr>f_name = ''x.sip'',
            f_text = ''%If (2.0 - 3.0)'' @ nl @ ''%If (WS_X11 || WS_WIN)'' @ nl
              @ ''%If (PyQt_OpenGL)'' @ nl @ ''%Include extra.sip'' @ nl
              @ ''%End'' @ nl @ ''%End'' @ nl @ ''%End'' @ nl,
            f_indent = 4, f_nrindents = 0, f_indentnext = True, f_blank = False,
            f_suppressblank = False\<rparr> \<and>
   ''2.0 - 3.0'' \<noteq> [] \<and>
   py_split (platforms ex_tagged) = [''WS_X11'', ''WS_WIN''] \<and>
   py_split (features ex_tagged) = [''PyQt_OpenGL''] \<and>
   opening_lines ''2.0 - 3.0'' ex_tagged
     = ''%If ('' @ ''2.0 - 3.0'' @ '')'' @ nl @ ''%If ('' @ ''WS_X11'' @ '' || '' @ ''WS_WIN''
         @ '')'' @ nl @ ''%If ('' @ ''PyQt_OpenGL'' @ '')'' @ nl \<and>
   closing_lines ''2.0 - 3.0'' ex_tagged = ''%End'' @ nl @ ''%End'' @ nl @ ''%End'' @ nl"
proof -
  have st: "status ex_tagged = []" by (simp add: ex_tagged_def)
  have run: "Code_sip element_sip ex_prj [ex_tagged] (IndentFile_init ''x.sip'' 4)
     = Inr \<lparr>f_name = ''x.sip'',
            f_text = ''%If (2.0 - 3.0)'' @ nl @ ''%If (WS_X11 || WS_WIN)'' @ nl
              @ ''%If (PyQt_OpenGL)'' @ nl @ ''%Include extra.sip'' @ nl
              @ ''%End'' @ nl @ ''%End'' @ nl @ ''%End'' @ nl,
            f_indent = 4, f_nrindents = 0, f_indentnext = True, f_blank = False,
            f_suppressblank = False\<rparr>"
    using st by (simp add: ex_tagged_sip)
  have vr: "''2.0 - 3.0'' \<noteq> []" by simp
  have ps: "py_split (platforms ex_tagged) = [''WS_X11'', ''WS_WIN'']"
    "py_split (features ex_tagged) = [''PyQt_OpenGL'']"
    by (simp_all add: ex_tagged_def py_split_def isspace_def)
  from sip_conditions_nested
         [of ex_tagged element_sip ex_prj "[]" "IndentFile_init ''x.sip'' 4" _ _ _
             "''2.0 - 3.0''" "''WS_X11''" "''WS_WIN''" "''PyQt_OpenGL''"]
    vr ps
  have "opening_lines ''2.0 - 3.0'' ex_tagged
     = ''%If ('' @ ''2.0 - 3.0'' @ '')'' @ nl @ ''%If ('' @ ''WS_X11'' @ '' || '' @ ''WS_WIN''
         @ '')'' @ nl @ ''%If ('' @ ''PyQt_OpenGL'' @ '')'' @ nl \<and>
   closing_lines ''2.0 - 3.0'' ex_tagged = ''%End'' @ nl @ ''%End'' @ nl @ ''%End'' @ nl"
    by blast
  with st run vr ps show ?thesis by (intro conjI) simp_all
qed

section \<open>The result of generating a module\<close>

lemma createSIPFile_denied:
  "open_error ev (sip_path od md hf) = Some (IOError, detail) \<Longrightarrow>
     createSIPFile ev prj od md hf fs
       = Inr (None,
          prj\<lparr>p_diagnostic := ''Unable to create file '' @ sip_path od md hf @ '': '' @ detail\<rparr>,
          fs)"
  by (simp add: createSIPFile_def)

lemma createSIPFile_raises:
  "open_error ev (sip_path od md hf) = Some (e, detail) \<Longrightarrow> e \<noteq> IOError \<Longrightarrow>
     createSIPFile ev prj od md hf fs = Inl e"
  by (simp add: createSIPFile_def)

lemma createSIPFile_created:
  "open_error ev (sip_path od md hf) = None \<Longrightarrow>
     createSIPFile ev prj od md hf fs
       = Inr (Some (sip_boilerplate ev prj md hf (sip_path od md hf)), prj,
              fs(sip_path od md hf := Some []))"
  by (simp add: createSIPFile_def Let_def)

lemma close_file_created [simp]:
  "close_file p g (fs(p := Some [])) = fs(p := Some (f_text g))"
  by (simp add: close_file_def)

lemma written_Nil [simp]: "written fs ps [] = fs"
  by (cases ps) simp_all

lemma written_snoc:
  "length gs = length ps \<Longrightarrow>
     written fs (ps @ [p]) (gs @ [g]) = (written fs ps gs)(p := Some (f_text g))"
proof (induction ps arbitrary: fs gs)
  case Nil
  then show ?case by simp
next
  case (Cons q ps)
  then show ?case by (cases gs) simp_all
qed

lemma written_append_paths:
  "length gs \<le> length ps \<Longrightarrow> written fs (ps @ qs) gs = written fs ps gs"
proof (induction ps arbitrary: fs gs)
  case Nil
  then show ?case by simp
next
  case (Cons q ps)
  show ?case
  proof (cases gs)
    case Nil
    then show ?thesis by simp
  next
    case (Cons g gs')
    with Cons.prems have "length gs' \<le> length ps" by simp
    then have "written (fs(q := Some (f_text g))) (ps @ qs) gs'
        = written (fs(q := Some (f_text g))) ps gs'"
      by (rule Cons.IH)
    then show ?thesis by (simp only: Cons append_Cons written.simps)
  qed
qed

lemma written_keeps: "fs p \<noteq> None \<Longrightarrow> written fs ps gs p \<noteq> None"
proof (induction ps arbitrary: fs gs)
  case Nil
  then show ?case by simp
next
  case (Cons q ps)
  then show ?case by (cases gs) simp_all
qed

lemma written_other: "p \<notin> set (take (length gs) ps) \<Longrightarrow> written fs ps gs p = fs p"
proof (induction ps arbitrary: fs gs)
  case Nil
  then show ?case by simp
next
  case (Cons q ps)
  then show ?case by (cases gs) simp_all
qed

lemma written_nth:
  "j < length gs \<Longrightarrow> length gs \<le> length ps \<Longrightarrow> distinct (take (length gs) ps) \<Longrightarrow>
     written fs ps gs (ps ! j) = Some (f_text (gs ! j))"
proof (induction ps arbitrary: fs gs j)
  case Nil
  then show ?case by simp
next
  case (Cons q ps)
  from Cons.prems(1) obtain g gs' where gs: "gs = g # gs'" by (cases gs) auto
  show ?case
  proof (cases j)
    case 0
    with Cons.prems gs show ?thesis by (simp add: written_other)
  next
    case (Suc i)
    with Cons.prems gs have "written (fs(q := Some (f_text g))) ps gs' (ps ! i)
        = Some (f_text (gs' ! i))"
      by (intro Cons.IH) simp_all
    with Suc gs show ?thesis by simp
  qed
qed

text \<open>
  What the loop over the header files leaves.  The header files that were written are
  those of \<open>gs\<close>, the first ones in their order.  Then the loop ended, or the next file
  could not be created, or creating it raised, or it was created and raised while it was
  written.
\<close>

lemma generate_headers_run:
  "generate_headers ev csip od md hfs names prj fs log0 = (r, log) \<Longrightarrow>
     \<exists>gs. length gs \<le> length hfs \<and>
       (\<forall>j<length gs. open_error ev (sip_path od md (Some (hfs ! j))) = None \<and>
                      header_file ev csip prj od md (hfs ! j) = Inr (gs ! j)) \<and>
       (length gs = length hfs \<and>
          r = Inr (names @ map (\<lambda>g. basename (f_name g)) gs, prj,
                   written fs (map (\<lambda>hf. sip_path od md (Some hf)) hfs) gs) \<and>
          log = log0 @ map (\<lambda>hf. Created (sip_path od md (Some hf))) hfs
        \<or> length gs < length hfs \<and>
          (\<exists>detail.
             open_error ev (sip_path od md (Some (hfs ! length gs))) = Some (IOError, detail) \<and>
             r = Inl (Returned False
                   (prj\<lparr>p_diagnostic := ''Unable to create file ''
                          @ sip_path od md (Some (hfs ! length gs)) @ '': '' @ detail\<rparr>)
                   (written fs (map (\<lambda>hf. sip_path od md (Some hf)) hfs) gs))) \<and>
          log = log0 @ map (\<lambda>hf. Created (sip_path od md (Some hf))) (take (length gs) hfs)
                  @ [Failed (sip_path od md (Some (hfs ! length gs)))]
        \<or> length gs < length hfs \<and>
          (\<exists>e detail. e \<noteq> IOError \<and>
             open_error ev (sip_path od md (Some (hfs ! length gs))) = Some (e, detail) \<and>
             r = Inl (Raised e) \<and>
             log = log0 @ map (\<lambda>hf. Created (sip_path od md (Some hf))) (take (length gs) hfs)
                     @ [Aborted (sip_path od md (Some (hfs ! length gs))) e])
        \<or> length gs < length hfs \<and>
          open_error ev (sip_path od md (Some (hfs ! length gs))) = None \<and>
          (\<exists>e. header_file ev csip prj od md (hfs ! length gs) = Inl e \<and> r = Inl (Raised e)) \<and>
          log = log0 @ map (\<lambda>hf. Created (sip_path od md (Some hf)))
                         (take (Suc (length gs)) hfs))"
proof (induction hfs arbitrary: names fs log0)
  case Nil
  then show ?case by auto
next
  case (Cons hf hfs)
  let ?P = "\<lambda>hf. sip_path od md (Some hf)"
  show ?case
  proof (cases "open_error ev (?P hf)")
    case (Some a)
    obtain e detail where a: "a = (e, detail)" by (cases a)
    show ?thesis
    proof (cases "e = IOError")
      case True
      with Some a Cons.prems have
        "r = Inl (Returned False
                  (prj\<lparr>p_diagnostic := ''Unable to create file '' @ ?P hf @ '': '' @ detail\<rparr>) fs)"
        "log = log0 @ [Failed (?P hf)]"
        by (auto simp: createSIPFile_denied)
      with Some a True show ?thesis by (intro exI [of _ "[]"]) auto
    next
      case False
      with Some a Cons.prems have "r = Inl (Raised e)" "log = log0 @ [Aborted (?P hf) e]"
        by (auto simp: createSIPFile_raises)
      with Some a False show ?thesis by (intro exI [of _ "[]"]) auto
    qed
  next
    case None
    note f = createSIPFile_created [OF None, of prj fs]
    show ?thesis
    proof (cases "header_file ev csip prj od md hf")
      case (Inl e)
      with f Cons.prems have "r = Inl (Raised e)" "log = log0 @ [Created (?P hf)]"
        by (auto simp: header_file_def)
      with None Inl show ?thesis by (intro exI [of _ "[]"]) auto
    next
      case (Inr g)
      let ?fs = "fs(?P hf := Some (f_text g))"
      from Inr f Cons.prems have rec:
        "generate_headers ev csip od md hfs (names @ [basename (f_name g)]) prj ?fs
           (log0 @ [Created (?P hf)]) = (r, log)"
        by (simp add: header_file_def)
      from Cons.IH [OF rec] obtain gs where len: "length gs \<le> length hfs" and
        each: "\<forall>j<length gs. open_error ev (?P (hfs ! j)) = None \<and>
                      header_file ev csip prj od md (hfs ! j) = Inr (gs ! j)" and
        alt: "length gs = length hfs \<and>
          r = Inr ((names @ [basename (f_name g)]) @ map (\<lambda>g. basename (f_name g)) gs, prj,
                   written ?fs (map ?P hfs) gs) \<and>
          log = (log0 @ [Created (?P hf)]) @ map (\<lambda>hf. Created (?P hf)) hfs
        \<or> length gs < length hfs \<and>
          (\<exists>detail.
             open_error ev (?P (hfs ! length gs)) = Some (IOError, detail) \<and>
             r = Inl (Returned False
                   (prj\<lparr>p_diagnostic := ''Unable to create file ''
                          @ ?P (hfs ! length gs) @ '': '' @ detail\<rparr>)
                   (written ?fs (map ?P hfs) gs))) \<and>
          log = (log0 @ [Created (?P hf)]) @ map (\<lambda>hf. Created (?P hf)) (take (length gs) hfs)
                  @ [Failed (?P (hfs ! length gs))]
        \<or> length gs < length hfs \<and>
          (\<exists>e detail. e \<noteq> IOError \<and>
             open_error ev (?P (hfs ! length gs)) = Some (e, detail) \<and>
             r = Inl (Raised e) \<and>
             log = (log0 @ [Created (?P hf)])
                     @ map (\<lambda>hf. Created (?P hf)) (take (length gs) hfs)
                     @ [Aborted (?P (hfs ! length gs)) e])
        \<or> length gs < length hfs \<and>
          open_error ev (?P (hfs ! length gs)) = None \<and>
          (\<exists>e. header_file ev csip prj od md (hfs ! length gs) = Inl e \<and> r = Inl (Raised e)) \<and>
          log = (log0 @ [Created (?P hf)])
                  @ map (\<lambda>hf. Created (?P hf)) (take (Suc (length gs)) hfs)"
        by blast
      have each': "\<forall>j<length (g # gs). open_error ev (?P ((hf # hfs) ! j)) = None \<and>
                      header_file ev csip prj od md ((hf # hfs) ! j) = Inr ((g # gs) ! j)"
        using each None Inr by (auto simp: less_Suc_eq_0_disj)
      have len': "length (g # gs) \<le> length (hf # hfs)" using len by simp
      from alt have "length (g # gs) = length (hf # hfs) \<and>
          r = Inr (names @ map (\<lambda>g. basename (f_name g)) (g # gs), prj,
                   written fs (map ?P (hf # hfs)) (g # gs)) \<and>
          log = log0 @ map (\<lambda>hf. Created (?P hf)) (hf # hfs)
        \<or> length (g # gs) < length (hf # hfs) \<and>
          (\<exists>detail.
             open_error ev (?P ((hf # hfs) ! length (g # gs))) = Some (IOError, detail) \<and>
             r = Inl (Returned False
                   (prj\<lparr>p_diagnostic := ''Unable to create file ''
                          @ ?P ((hf # hfs) ! length (g # gs)) @ '': '' @ detail\<rparr>)
                   (written fs (map ?P (hf # hfs)) (g # gs)))) \<and>
          log = log0 @ map (\<lambda>hf. Created (?P hf)) (take (length (g # gs)) (hf # hfs))
                  @ [Failed (?P ((hf # hfs) ! length (g # gs)))]
        \<or> length (g # gs) < length (hf # hfs) \<and>
          (\<exists>e detail. e \<noteq> IOError \<and>
             open_error ev (?P ((hf # hfs) ! length (g # gs))) = Some (e, detail) \<and>
             r = Inl (Raised e) \<and>
             log = log0 @ map (\<lambda>hf. Created (?P hf)) (take (length (g # gs)) (hf # hfs))
                     @ [Aborted (?P ((hf # hfs) ! length (g # gs))) e])
        \<or> length (g # gs) < length (hf # hfs) \<and>
          open_error ev (?P ((hf # hfs) ! length (g # gs))) = None \<and>
          (\<exists>e. header_file ev csip prj od md ((hf # hfs) ! length (g # gs)) = Inl e
                \<and> r = Inl (Raised e)) \<and>
          log = log0 @ map (\<lambda>hf. Created (?P hf)) (take (Suc (length (g # gs))) (hf # hfs))"
        by simp
      with len' each' show ?thesis by (intro exI [of _ "g # gs"] conjI)
    qed
  qed
qed

lemma sip_paths_nth:
  "j < length (m_content md) \<Longrightarrow>
     sip_paths od md ! j = sip_path od md (Some (m_content md ! j))"
  "sip_paths od md ! length (m_content md) = sip_path od md None"
  "length (sip_paths od md) = Suc (length (m_content md))"
  "k \<le> length (m_content md) \<Longrightarrow>
     take k (sip_paths od md) = map (\<lambda>hf. sip_path od md (Some hf)) (take k (m_content md))"
  by (simp_all add: sip_paths_def nth_append take_map)

lemma generate_root_denied:
  "open_error ev (sip_path od md None) = Some (IOError, detail) \<Longrightarrow>
     generate_root ev md od latest hfnames prj fs log
       = (Returned False
            (prj\<lparr>p_diagnostic := ''Unable to create file '' @ sip_path od md None @ '': ''
                   @ detail\<rparr>) fs,
          log @ [Failed (sip_path od md None)])"
  by (simp add: generate_root_def createSIPFile_denied)

lemma generate_root_raises:
  "open_error ev (sip_path od md None) = Some (e, detail) \<Longrightarrow> e \<noteq> IOError \<Longrightarrow>
     generate_root ev md od latest hfnames prj fs log
       = (Raised e, log @ [Aborted (sip_path od md None) e])"
  by (simp add: generate_root_def createSIPFile_raises)

lemma generate_root_created:
  "open_error ev (sip_path od md None) = None \<Longrightarrow>
     generate_root ev md od latest hfnames prj fs log
       = (Returned True prj
            (fs(sip_path od md None := Some (f_text (root_file ev prj od md latest hfnames)))),
          log @ [Created (sip_path od md None)])"
  by (simp add: generate_root_def createSIPFile_created root_file_def)

lemma generateModule_run:
  assumes g: "generateModule ev csip prj md od saveod latest fs = (res, log)"
  defines "od' \<equiv> env_abspath ev od"
  defines "prj1 \<equiv> save_outputdir prj od' saveod"
  defines "hfs \<equiv> m_content md"
  defines "paths \<equiv> sip_paths od' md"
  shows "\<exists>gs. length gs \<le> length hfs \<and>
       (\<forall>j<length gs. open_error ev (paths ! j) = None \<and>
                      header_file ev csip prj1 od' md (hfs ! j) = Inr (gs ! j)) \<and>
       (length gs = length hfs \<and> open_error ev (paths ! length hfs) = None \<and>
          res = Returned True prj1
                  (written fs paths
                     (gs @ [root_file ev prj1 od' md latest
                              (map (\<lambda>g. basename (f_name g)) gs)])) \<and>
          log = map Created paths
        \<or> (\<exists>detail.
             open_error ev (paths ! length gs) = Some (IOError, detail) \<and>
             res = Returned False
                     (prj1\<lparr>p_diagnostic := ''Unable to create file '' @ paths ! length gs
                             @ '': '' @ detail\<rparr>)
                     (written fs paths gs)) \<and>
          log = map Created (take (length gs) paths) @ [Failed (paths ! length gs)]
        \<or> (\<exists>e detail. e \<noteq> IOError \<and>
             open_error ev (paths ! length gs) = Some (e, detail) \<and>
             res = Raised e \<and>
             log = map Created (take (length gs) paths) @ [Aborted (paths ! length gs) e])
        \<or> length gs < length hfs \<and>
          open_error ev (paths ! length gs) = None \<and>
          (\<exists>e. header_file ev csip prj1 od' md (hfs ! length gs) = Inl e \<and> res = Raised e) \<and>
          log = map Created (take (Suc (length gs)) paths))"
proof -
  let ?P = "\<lambda>hf. sip_path od' md (Some hf)"
  let ?root = "sip_path od' md None"
  obtain r log1 where loop: "generate_headers ev csip od' md hfs [] prj1 fs [] = (r, log1)"
    by (cases "generate_headers ev csip od' md hfs [] prj1 fs []") auto
  have nth: "\<And>j. j < length hfs \<Longrightarrow> paths ! j = ?P (hfs ! j)"
    "paths ! length hfs = ?root" "length paths = Suc (length hfs)"
    "\<And>k. k \<le> length hfs \<Longrightarrow> take k paths = map ?P (take k hfs)"
    "paths = map ?P hfs @ [?root]"
    by (simp_all add: sip_paths_nth hfs_def paths_def) (simp add: sip_paths_def)
  from generate_headers_run [OF loop] obtain gs where len: "length gs \<le> length hfs" and
    each: "\<forall>j<length gs. open_error ev (?P (hfs ! j)) = None \<and>
                      header_file ev csip prj1 od' md (hfs ! j) = Inr (gs ! j)" and
    alt: "length gs = length hfs \<and>
          r = Inr ([] @ map (\<lambda>g. basename (f_name g)) gs, prj1,
                   written fs (map ?P hfs) gs) \<and>
          log1 = [] @ map (\<lambda>hf. Created (?P hf)) hfs
        \<or> length gs < length hfs \<and>
          (\<exists>detail.
             open_error ev (?P (hfs ! length gs)) = Some (IOError, detail) \<and>
             r = Inl (Returned False
                   (prj1\<lparr>p_diagnostic := ''Unable to create file ''
                          @ ?P (hfs ! length gs) @ '': '' @ detail\<rparr>)
                   (written fs (map ?P hfs) gs))) \<and>
          log1 = [] @ map (\<lambda>hf. Created (?P hf)) (take (length gs) hfs)
                  @ [Failed (?P (hfs ! length gs))]
        \<or> length gs < length hfs \<and>
          (\<exists>e detail. e \<noteq> IOError \<and>
             open_error ev (?P (hfs ! length gs)) = Some (e, detail) \<and>
             r = Inl (Raised e) \<and>
             log1 = [] @ map (\<lambda>hf. Created (?P hf)) (take (length gs) hfs)
                     @ [Aborted (?P (hfs ! length gs)) e])
        \<or> length gs < length hfs \<and>
          open_error ev (?P (hfs ! length gs)) = None \<and>
          (\<exists>e. header_file ev csip prj1 od' md (hfs ! length gs) = Inl e \<and> r = Inl (Raised e)) \<and>
          log1 = [] @ map (\<lambda>hf. Created (?P hf)) (take (Suc (length gs)) hfs)"
    by blast
  have each': "\<forall>j<length gs. open_error ev (paths ! j) = None \<and>
                      header_file ev csip prj1 od' md (hfs ! j) = Inr (gs ! j)"
    using each len nth(1) by simp
  have wr: "written fs paths gs = written fs (map ?P hfs) gs"
    using len by (simp add: nth(5) written_append_paths)
  have gm: "generateModule ev csip prj md od saveod latest fs
      = (case (r, log1) of
           (Inl res, log) \<Rightarrow> (res, log)
         | (Inr (hfnames, prj', fs'), log) \<Rightarrow>
             generate_root ev md od' latest hfnames prj' fs' log)"
    using loop unfolding od'_def prj1_def hfs_def by (simp add: generateModule_def)
  from alt consider
    (complete) "length gs = length hfs"
        "r = Inr (map (\<lambda>g. basename (f_name g)) gs, prj1, written fs (map ?P hfs) gs)"
        "log1 = map (\<lambda>hf. Created (?P hf)) hfs"
    | (denied) detail where "length gs < length hfs"
        "open_error ev (?P (hfs ! length gs)) = Some (IOError, detail)"
        "r = Inl (Returned False
                   (prj1\<lparr>p_diagnostic := ''Unable to create file ''
                          @ ?P (hfs ! length gs) @ '': '' @ detail\<rparr>)
                   (written fs (map ?P hfs) gs))"
        "log1 = map (\<lambda>hf. Created (?P hf)) (take (length gs) hfs)
                  @ [Failed (?P (hfs ! length gs))]"
    | (aborted) e detail where "length gs < length hfs" "e \<noteq> IOError"
        "open_error ev (?P (hfs ! length gs)) = Some (e, detail)"
        "r = Inl (Raised e)"
        "log1 = map (\<lambda>hf. Created (?P hf)) (take (length gs) hfs)
                     @ [Aborted (?P (hfs ! length gs)) e]"
    | (raised) e where "length gs < length hfs"
        "open_error ev (?P (hfs ! length gs)) = None"
        "header_file ev csip prj1 od' md (hfs ! length gs) = Inl e" "r = Inl (Raised e)"
        "log1 = map (\<lambda>hf. Created (?P hf)) (take (Suc (length gs)) hfs)"
    by auto
  then have "length gs = length hfs \<and> open_error ev (paths ! length hfs) = None \<and>
          res = Returned True prj1
                  (written fs paths
                     (gs @ [root_file ev prj1 od' md latest
                              (map (\<lambda>g. basename (f_name g)) gs)])) \<and>
          log = map Created paths
        \<or> (\<exists>detail.
             open_error ev (paths ! length gs) = Some (IOError, detail) \<and>
             res = Returned False
                     (prj1\<lparr>p_diagnostic := ''Unable to create file '' @ paths ! length gs
                             @ '': '' @ detail\<rparr>)
                     (written fs paths gs)) \<and>
          log = map Created (take (length gs) paths) @ [Failed (paths ! length gs)]
        \<or> (\<exists>e detail. e \<noteq> IOError \<and>
             open_error ev (paths ! length gs) = Some (e, detail) \<and>
             res = Raised e \<and>
             log = map Created (take (length gs) paths) @ [Aborted (paths ! length gs) e])
        \<or> length gs < length hfs \<and>
          open_error ev (paths ! length gs) = None \<and>
          (\<exists>e. header_file ev csip prj1 od' md (hfs ! length gs) = Inl e \<and> res = Raised e) \<and>
          log = map Created (take (Suc (length gs)) paths)"
  proof cases
    case complete
    with g gm have fin: "generate_root ev md od' latest (map (\<lambda>g. basename (f_name g)) gs)
          prj1 (written fs (map ?P hfs) gs) log1 = (res, log)"
      by simp
    have tk: "take (length gs) paths = map ?P hfs" "paths ! length gs = ?root"
      using complete(1) nth(2) nth(4) [of "length hfs"] by simp_all
    show ?thesis
    proof (cases "open_error ev ?root")
      case None
      with fin have "res = Returned True prj1
            ((written fs (map ?P hfs) gs)
               (?root := Some (f_text (root_file ev prj1 od' md latest
                                         (map (\<lambda>g. basename (f_name g)) gs)))))"
        "log = log1 @ [Created ?root]"
        by (simp_all add: generate_root_created)
      moreover have "written fs paths
                     (gs @ [root_file ev prj1 od' md latest
                              (map (\<lambda>g. basename (f_name g)) gs)])
          = (written fs (map ?P hfs) gs)
               (?root := Some (f_text (root_file ev prj1 od' md latest
                                         (map (\<lambda>g. basename (f_name g)) gs))))"
        using complete(1) by (simp only: nth(5)) (rule written_snoc, simp)
      ultimately show ?thesis using None complete(1,3) nth(2,5) by (simp add: comp_def)
    next
      case (Some a)
      obtain e detail where a: "a = (e, detail)" by (cases a)
      show ?thesis
      proof (cases "e = IOError")
        case True
        with Some a fin have "res = Returned False
            (prj1\<lparr>p_diagnostic := ''Unable to create file '' @ ?root @ '': '' @ detail\<rparr>)
            (written fs (map ?P hfs) gs)" "log = log1 @ [Failed ?root]"
          by (simp_all add: generate_root_denied)
        with Some a True complete(3) tk wr have "(\<exists>detail.
             open_error ev (paths ! length gs) = Some (IOError, detail) \<and>
             res = Returned False
                     (prj1\<lparr>p_diagnostic := ''Unable to create file '' @ paths ! length gs
                             @ '': '' @ detail\<rparr>)
                     (written fs paths gs)) \<and>
          log = map Created (take (length gs) paths) @ [Failed (paths ! length gs)]"
          by (simp add: comp_def)
        then show ?thesis by blast
      next
        case False
        with Some a fin have "res = Raised e" "log = log1 @ [Aborted ?root e]"
          by (simp_all add: generate_root_raises)
        with Some a False complete(3) tk have "\<exists>e detail. e \<noteq> IOError \<and>
             open_error ev (paths ! length gs) = Some (e, detail) \<and>
             res = Raised e \<and>
             log = map Created (take (length gs) paths) @ [Aborted (paths ! length gs) e]"
          by (simp add: comp_def)
        then show ?thesis by blast
      qed
    qed
  next
    case denied
    with g gm have "res = Returned False
                   (prj1\<lparr>p_diagnostic := ''Unable to create file ''
                          @ ?P (hfs ! length gs) @ '': '' @ detail\<rparr>)
                   (written fs (map ?P hfs) gs)" "log = log1"
      by simp_all
    with denied wr nth(1) [of "length gs"] nth(4) [of "length gs"] have "(\<exists>detail.
             open_error ev (paths ! length gs) = Some (IOError, detail) \<and>
             res = Returned False
                     (prj1\<lparr>p_diagnostic := ''Unable to create file '' @ paths ! length gs
                             @ '': '' @ detail\<rparr>)
                     (written fs paths gs)) \<and>
          log = map Created (take (length gs) paths) @ [Failed (paths ! length gs)]"
      by (simp add: comp_def)
    then show ?thesis by blast
  next
    case aborted
    with g gm have "res = Raised e" "log = log1" by simp_all
    with aborted nth(1) [of "length gs"] nth(4) [of "length gs"] have "\<exists>e detail. e \<noteq> IOError \<and>
             open_error ev (paths ! length gs) = Some (e, detail) \<and>
             res = Raised e \<and>
             log = map Created (take (length gs) paths) @ [Aborted (paths ! length gs) e]"
      by (simp add: comp_def)
    then show ?thesis by blast
  next
    case raised
    with g gm have "res = Raised e" "log = log1" by simp_all
    with raised nth(1) [of "length gs"] nth(4) [of "Suc (length gs)"] have
      "length gs < length hfs \<and>
          open_error ev (paths ! length gs) = None \<and>
          (\<exists>e. header_file ev csip prj1 od' md (hfs ! length gs) = Inl e \<and> res = Raised e) \<and>
          log = map Created (take (Suc (length gs)) paths)"
      by (simp add: comp_def)
    then show ?thesis by blast
  qed
  with len each' show ?thesis by blast
qed

lemma Created_take_neq: "k < length ps \<Longrightarrow> map Created (take k ps) \<noteq> map Created ps"
proof
  assume "k < length ps" "map Created (take k ps) = map Created ps"
  then have "length (map Created (take k ps)) = length (map Created ps)" by simp
  with \<open>k < length ps\<close> show False by simp
qed

lemma Created_snoc_neq: "x \<notin> range Created \<Longrightarrow> map Created qs @ [x] \<noteq> map Created ps"
proof
  assume x: "x \<notin> range Created" and "map Created qs @ [x] = map Created ps"
  then have "x \<in> set (map Created ps)" by (metis in_set_conv_decomp)
  with x show False by auto
qed


lemma HeaderFile_sip_plain:
  "HeaderFile_sip csip prj (ex_header nm cs) f
     = (if list_ex module_level cs
        then HeaderFile_sip csip prj (ex_header nm cs) f
        else bindE (Code_sip csip prj cs f) (\<lambda>f2. Inr (IndentFile_blank f2)))"
  by (simp add: HeaderFile_sip_def ex_header_def)

lemma ex_boilerplate:
  "sip_boilerplate ex_env_denied (ex_prj\<lparr>p_outputdir := ''/out''\<rparr>)
       (ex_mod [ex_header ''gui/qwidget.h'' [ex_tagged], ex_header ''qfont.h'' []])
       (Some (ex_header ''qfont.h'' [])) ''/out/QtGui/qfont.sip''
     = \<lparr>f_name = ''/out/QtGui/qfont.sip'',
            f_text = ''// qfont.sip generated by MetaSIP on Tue Nov  3 14:00:00 2026'' @ nl
              @ ''//'' @ nl @ ''// This file is part of the QtGui Python extension module.''
              @ nl @ nl,
            f_indent = 4, f_nrindents = 0, f_indentnext = True, f_blank = True,
            f_suppressblank = False\<rparr>"
  "sip_boilerplate ex_env_denied (ex_prj\<lparr>p_outputdir := ''/out''\<rparr>)
       (ex_mod [ex_header ''gui/qwidget.h'' [ex_tagged], ex_header ''qfont.h'' []])
       (Some (ex_header ''gui/qwidget.h'' [ex_tagged])) ''/out/QtGui/qwidget.sip''
     = \<lparr>f_name = ''/out/QtGui/qwidget.sip'',
            f_text = ''// qwidget.sip generated by MetaSIP on Tue Nov  3 14:00:00 2026'' @ nl
              @ ''//'' @ nl @ ''// This file is part of the QtGui Python extension module.''
              @ nl @ nl,
            f_indent = 4, f_nrindents = 0, f_indentnext = True, f_blank = True,
            f_suppressblank = False\<rparr>"
  by code_simp+

lemma ex_tagged_header:
  "sip_wrapped element_sip (ex_prj\<lparr>p_outputdir := ''/out''\<rparr>) ex_tagged
       \<lparr>f_name = ''/out/QtGui/qwidget.sip'',
            f_text = ''// qwidget.sip generated by MetaSIP on Tue Nov  3 14:00:00 2026'' @ nl
              @ ''//'' @ nl @ ''// This file is part of the QtGui Python extension module.''
              @ nl @ nl,
            f_indent = 4, f_nrindents = 0, f_indentnext = True, f_blank = True,
            f_suppressblank = False\<rparr>
     = Inr \<lparr>f_name = ''/out/QtGui/qwidget.sip'',
            f_text = ''// qwidget.sip generated by MetaSIP on Tue Nov  3 14:00:00 2026'' @ nl
              @ ''//'' @ nl @ ''// This file is part of the QtGui Python extension module.''
              @ nl @ nl @ nl
              @ ''%If (2.0 - 3.0)'' @ nl @ ''%If (WS_X11 || WS_WIN)'' @ nl
              @ ''%If (PyQt_OpenGL)'' @ nl @ ''%Include extra.sip'' @ nl
              @ ''%End'' @ nl @ ''%End'' @ nl @ ''%End'' @ nl,
            f_indent = 4, f_nrindents = 0, f_indentnext = True, f_blank = False,
            f_suppressblank = False\<rparr>"
  by code_simp

lemma ex_sip_path:
  "sip_path ''/out'' (ex_mod [ex_header ''gui/qwidget.h'' [ex_tagged], ex_header ''qfont.h'' []])
     (Some (ex_header ''gui/qwidget.h'' [ex_tagged])) = ''/out/QtGui/qwidget.sip''"
  "sip_path ''/out'' (ex_mod [ex_header ''gui/qwidget.h'' [ex_tagged], ex_header ''qfont.h'' []])
     (Some (ex_header ''qfont.h'' [])) = ''/out/QtGui/qfont.sip''"
  by code_simp+

lemma ex_denied_paths:
  "sip_paths ''/out''
       (ex_mod [ex_header ''gui/qwidget.h'' [ex_tagged], ex_header ''qfont.h'' []])
     = [''/out/QtGui/qwidget.sip'', ''/out/QtGui/qfont.sip'', ''/out/QtGui/QtGuimod.sip'']"
  by code_simp

lemma ex_header_files:
  "header_file ex_env_denied element_sip (ex_prj\<lparr>p_outputdir := ''/out''\<rparr>) ''/out''
       (ex_mod [ex_header ''gui/qwidget.h'' [ex_tagged], ex_header ''qfont.h'' []])
       (ex_header ''gui/qwidget.h'' [ex_tagged])
     = Inr \<lparr>f_name = ''/out/QtGui/qwidget.sip'',
            f_text = ''// qwidget.sip generated by MetaSIP on Tue Nov  3 14:00:00 2026'' @ nl
              @ ''//'' @ nl @ ''// This file is part of the QtGui Python extension module.''
              @ nl @ nl @ nl
              @ ''%If (2.0 - 3.0)'' @ nl @ ''%If (WS_X11 || WS_WIN)'' @ nl
              @ ''%If (PyQt_OpenGL)'' @ nl @ ''%Include extra.sip'' @ nl
              @ ''%End'' @ nl @ ''%End'' @ nl @ ''%End'' @ nl,
            f_indent = 4, f_nrindents = 0, f_indentnext = True, f_blank = True,
            f_suppressblank = False\<rparr>"
  "header_file ex_env_denied element_sip (ex_prj\<lparr>p_outputdir := ''/out''\<rparr>) ''/out''
       (ex_mod [ex_header ''gui/qwidget.h'' [ex_tagged], ex_header ''qfont.h'' []])
       (ex_header ''qfont.h'' [])
     = Inr \<lparr>f_name = ''/out/QtGui/qfont.sip'',
            f_text = ''// qfont.sip generated by MetaSIP on Tue Nov  3 14:00:00 2026'' @ nl
              @ ''//'' @ nl @ ''// This file is part of the QtGui Python extension module.''
              @ nl @ nl,
            f_indent = 4, f_nrindents = 0, f_indentnext = True, f_blank = True,
            f_suppressblank = False\<rparr>"
proof -
  have ml: "\<not> list_ex module_level [ex_tagged]"
    by (simp add: module_level_def ex_tagged_def)
  have st: "status ex_tagged = []" by (simp add: ex_tagged_def)
  show "header_file ex_env_denied element_sip (ex_prj\<lparr>p_outputdir := ''/out''\<rparr>) ''/out''
       (ex_mod [ex_header ''gui/qwidget.h'' [ex_tagged], ex_header ''qfont.h'' []])
       (ex_header ''gui/qwidget.h'' [ex_tagged])
     = Inr \<lparr>f_name = ''/out/QtGui/qwidget.sip'',
            f_text = ''// qwidget.sip generated by MetaSIP on Tue Nov  3 14:00:00 2026'' @ nl
              @ ''//'' @ nl @ ''// This file is part of the QtGui Python extension module.''
              @ nl @ nl @ nl
              @ ''%If (2.0 - 3.0)'' @ nl @ ''%If (WS_X11 || WS_WIN)'' @ nl
              @ ''%If (PyQt_OpenGL)'' @ nl @ ''%Include extra.sip'' @ nl
              @ ''%End'' @ nl @ ''%End'' @ nl @ ''%End'' @ nl,
            f_indent = 4, f_nrindents = 0, f_indentnext = True, f_blank = True,
            f_suppressblank = False\<rparr>"
    unfolding header_file_def ex_sip_path ex_boilerplate
    by (subst HeaderFile_sip_plain)
       (simp only: ml if_False Code_sip.simps st simp_thms ex_tagged_header bindE_Inr,
        simp add: IndentFile_blank_def)
  show "header_file ex_env_denied element_sip (ex_prj\<lparr>p_outputdir := ''/out''\<rparr>) ''/out''
       (ex_mod [ex_header ''gui/qwidget.h'' [ex_tagged], ex_header ''qfont.h'' []])
       (ex_header ''qfont.h'' [])
     = Inr \<lparr>f_name = ''/out/QtGui/qfont.sip'',
            f_text = ''// qfont.sip generated by MetaSIP on Tue Nov  3 14:00:00 2026'' @ nl
              @ ''//'' @ nl @ ''// This file is part of the QtGui Python extension module.''
              @ nl @ nl,
            f_indent = 4, f_nrindents = 0, f_indentnext = True, f_blank = True,
            f_suppressblank = False\<rparr>"
    unfolding header_file_def ex_sip_path ex_boilerplate
    by (subst HeaderFile_sip_plain) (simp add: IndentFile_blank_def)
qed

lemma list_of_two: "length xs = 2 \<Longrightarrow> xs = [xs ! 0, xs ! 1]"
  by (cases xs; cases "tl xs") auto


lemma ex_nul_run:
  "case generateModule ex_env element_sip ex_prj (ex_mod [ex_nul_header]) ''/out'' True True
          ex_files
   of (Raised e, log) \<Rightarrow>
        e = ValueError \<and> log = [Aborted (''/out/QtGui/a'' @ [CHR 0x00] @ ''b.sip'') ValueError]
    | (Returned ok prj' fs', log) \<Rightarrow> False"
  by code_simp

lemma ex_nul_path:
  "sip_paths (env_abspath ex_env ''/out'') (ex_mod [ex_nul_header])
     = [''/out/QtGui/a'' @ [CHR 0x00] @ ''b.sip'', ''/out/QtGui/QtGuimod.sip'']"
  by code_simp




text \<open>
  A header file with a child whose start generation is not in the list of versions: the
  file is created, \<^verbatim>\<open>versionRange\<close> raises \<^verbatim>\<open>IndexError\<close> while it is written, and
  the run ends there, before the file of the module is tried.
\<close>

lemma ex_dangling_run:
  "case generateModule ex_env element_sip ex_prj
          (ex_mod [ex_header ''gui/qwidget.h'' [ex_dangling]]) ''/out'' True True ex_files
   of (Raised e, log) \<Rightarrow> e = IndexError \<and> log = [Created ''/out/QtGui/qwidget.sip'']
    | (Returned ok prj' fs', log) \<Rightarrow> False"
  by code_simp

end
